theory Spec2Isabelle
  imports Main "HOL-Library.Sublist"
begin

section \<open>Public gallery: lightbox navigation\<close>

text \<open>
  \<^verbatim>\<open>PhotoLightbox\<close> keeps \<^verbatim>\<open>currentIndex\<close>, a JavaScript number that only ever holds
  small integers; it is modelled as an \<open>int\<close>.  The two state updaters are the functions
  handed to \<^verbatim>\<open>setCurrentIndex\<close>.
\<close>

definition goToPrevious :: "'p list \<Rightarrow> int \<Rightarrow> int" where
  "goToPrevious photos prevIndex =
     (if prevIndex = 0 then int (length photos) - 1 else prevIndex - 1)"

definition goToNext :: "'p list \<Rightarrow> int \<Rightarrow> int" where
  "goToNext photos prevIndex =
     (if prevIndex = int (length photos) - 1 then 0 else prevIndex + 1)"

text \<open>
  The key handler of the lightbox: \<^verbatim>\<open>ArrowLeft\<close> and \<^verbatim>\<open>ArrowRight\<close> (and the two buttons)
  are the only ways the index changes.  \<open>lightboxIndex\<close> is the index after a sequence of
  keys, for a lightbox mounted with the given start index.
\<close>

datatype nav = ArrowLeft | ArrowRight

fun handleKeyDown :: "'p list \<Rightarrow> nav \<Rightarrow> int \<Rightarrow> int" where
  "handleKeyDown photos ArrowLeft i = goToPrevious photos i"
| "handleKeyDown photos ArrowRight i = goToNext photos i"

definition lightboxIndex :: "'p list \<Rightarrow> nat \<Rightarrow> nav list \<Rightarrow> int" where
  "lightboxIndex photos startIndex ks = foldl (\<lambda>i k. handleKeyDown photos k i) (int startIndex) ks"

section \<open>Data model (\<^verbatim>\<open>types.ts\<close>, \<^verbatim>\<open>pages/Admin.tsx\<close>)\<close>

text \<open>
  JavaScript strings are modelled as \<open>string\<close>; \<^verbatim>\<open>null\<close> and \<^verbatim>\<open>undefined\<close> are both \<open>None\<close>.
  \<^verbatim>\<open>Album\<close> is used as \<^verbatim>\<open>Partial<Album>\<close> by the editor, so every field is optional.
\<close>

record Album =
  album_id :: "string option"
  title :: "string option"
  description :: "string option"
  cover_image_url :: "string option"
  created_at :: "string option"
  photo_count :: "nat option"

record Photo =
  photo_id :: string
  photo_album_id :: string
  image_url :: string
  caption :: "string option"
  photo_created_at :: string

datatype toast_type = TSuccess | TError | TInfo

record ToastMessage =
  message :: string
  ttype :: toast_type

text \<open>The browser's \<^verbatim>\<open>File\<close>: the three attributes the code reads.\<close>

record File =
  file_name :: string
  file_type :: string
  file_size :: nat

datatype status = Queued | Uploading | Success | Error

text \<open>
  \<^verbatim>\<open>crypto.randomUUID()\<close> and \<^verbatim>\<open>URL.createObjectURL(file)\<close> return values that were never
  returned before; both are modelled by counters kept in the state.
\<close>

type_synonym uuid = nat
type_synonym objectUrl = nat

record UploadableFile =
  uf_id :: uuid
  uf_file :: File
  previewUrl :: objectUrl
  status :: status
  uf_error :: "string option"

text \<open>
  The backend SDK is an external service.  A handler receives the answer of each call as
  an argument (the \<^verbatim>\<open>error\<close> component is the error's message, \<open>None\<close> for \<^verbatim>\<open>null\<close>) and records
  every request it sends, with the error it got, in \<open>calls\<close>.
\<close>

type_synonym err = string
type_synonym fileName = "uuid \<times> string"

datatype request =
    SignInWithPassword string string
  | SignOut
  | AlbumsInsert "string option" "string option"
  | AlbumsUpdate "string option" "string option" "string option"
  | PhotosUpdateCaption string string
  | AlbumsUpdateCover "string option" "string option"
  | PhotosSelectUrls string
  | PhotosDelete string
  | AlbumsDelete string
  | StorageRemove "string list"
  | StorageUpload fileName File
  | PhotosInsert string string
  | PhotosInsertMany "(string \<times> string) list"
  | RpcAlbumsWithPhotoCount
  | PhotosCount

record 'a response =
  data :: "'a option"
  error :: "err option"

text \<open>
  The state a handler can change: the toast log (every \<^verbatim>\<open>addToast\<close> call, in order), the
  requests sent, the routes navigated to, the editor's \<^verbatim>\<open>albumId\<close> route parameter, its
  \<^verbatim>\<open>album\<close> and \<^verbatim>\<open>filesToUpload\<close> states, the log of \<^verbatim>\<open>URL.revokeObjectURL\<close> calls, the
  number of refreshes (\<^verbatim>\<open>fetchAlbumData()\<close>, \<^verbatim>\<open>fetchAlbumsAndStats()\<close>) and of timers started,
  and the dashboard's \<^verbatim>\<open>albums\<close> and \<^verbatim>\<open>stats\<close>.
\<close>

record page =
  toasts :: "ToastMessage list"
  calls :: "(request \<times> err option) list"
  navigated :: "string list"
  albumId :: "string option"
  album :: Album
  filesToUpload :: "UploadableFile list"
  revoked :: "objectUrl list"
  nextUuid :: uuid
  nextBlob :: objectUrl
  refreshes :: nat
  timers :: nat
  albums :: "Album list"
  albumCount :: nat
  photoCount :: nat

definition addToast :: "string \<Rightarrow> toast_type \<Rightarrow> page \<Rightarrow> page" where
  "addToast msg ty st = st\<lparr>toasts := toasts st @ [\<lparr>message = msg, ttype = ty\<rparr>]\<rparr>"

definition call :: "request \<Rightarrow> err option \<Rightarrow> page \<Rightarrow> page" where
  "call req e st = st\<lparr>calls := calls st @ [(req, e)]\<rparr>"

definition navigate :: "string \<Rightarrow> page \<Rightarrow> page" where
  "navigate route st = st\<lparr>navigated := navigated st @ [route]\<rparr>"

definition refresh :: "page \<Rightarrow> page" where
  "refresh st = st\<lparr>refreshes := Suc (refreshes st)\<rparr>"

definition revokeObjectURL :: "objectUrl \<Rightarrow> page \<Rightarrow> page" where
  "revokeObjectURL u st = st\<lparr>revoked := revoked st @ [u]\<rparr>"

text \<open>JavaScript truthiness of an optional string: \<^verbatim>\<open>undefined\<close>, \<^verbatim>\<open>null\<close> and \<^verbatim>\<open>''\<close> are falsy.\<close>

definition truthy :: "string option \<Rightarrow> bool" where
  "truthy s = (case s of None \<Rightarrow> False | Some v \<Rightarrow> v \<noteq> [])"

section \<open>The editor's upload queue\<close>

text \<open>
  The editor registers
  \<^verbatim>\<open>useEffect(() => () => filesToUpload.forEach(f => URL.revokeObjectURL(f.previewUrl)), [filesToUpload])\<close>.
  React runs the cleanup of an effect, with the values of the render that created it, each
  time a dependency has changed and when the component unmounts.  Every updater below
  builds a new array, so each \<^verbatim>\<open>setFilesToUpload\<close> is followed by the cleanup over the
  previous queue.
\<close>

definition effectCleanup :: "UploadableFile list \<Rightarrow> page \<Rightarrow> page" where
  "effectCleanup fs st = fold (\<lambda>f. revokeObjectURL (previewUrl f)) fs st"

definition setFilesToUpload :: "(UploadableFile list \<Rightarrow> UploadableFile list) \<Rightarrow> page \<Rightarrow> page" where
  "setFilesToUpload upd st =
     (let prev = filesToUpload st in effectCleanup prev (st\<lparr>filesToUpload := upd prev\<rparr>))"

definition unmount :: "page \<Rightarrow> page" where
  "unmount st = effectCleanup (filesToUpload st) st"

text \<open>The callback of \<^verbatim>\<open>Array.from(selectedFiles).map\<close> in \<^verbatim>\<open>handleFileSelect\<close>.\<close>

definition selectFile :: "File \<Rightarrow> page \<Rightarrow> UploadableFile option \<times> page" where
  "selectFile file st =
     (if \<not> prefix ''image/'' (file_type file) then
        (None, addToast (''File '' @ file_name file @ '' bukan gambar.'') TError st)
      else if file_size file > 5 * 1024 * 1024 then
        (None, addToast (''File '' @ file_name file @ '' terlalu besar (> 5MB).'') TError st)
      else
        (Some \<lparr>uf_id = nextUuid st, uf_file = file, previewUrl = nextBlob st,
               status = Queued, uf_error = None\<rparr>,
         st\<lparr>nextUuid := Suc (nextUuid st), nextBlob := Suc (nextBlob st)\<rparr>))"

fun mapFiles :: "File list \<Rightarrow> page \<Rightarrow> UploadableFile option list \<times> page" where
  "mapFiles [] st = ([], st)"
| "mapFiles (file # files) st =
     (case selectFile file st of (r, st1) \<Rightarrow>
        (case mapFiles files st1 of (rs, st2) \<Rightarrow> (r # rs, st2)))"

definition handleFileSelect :: "File list option \<Rightarrow> page \<Rightarrow> page" where
  "handleFileSelect selectedFiles st =
     (case selectedFiles of
        None \<Rightarrow> st
      | Some files \<Rightarrow>
          (case mapFiles files st of (rs, st1) \<Rightarrow>
             (let newFiles = map the (filter (\<lambda>f. f \<noteq> None) rs)
              in setFilesToUpload (\<lambda>prev. prev @ newFiles) st1)))"

definition removeFileFromQueue :: "uuid \<Rightarrow> page \<Rightarrow> page" where
  "removeFileFromQueue i st =
     (let prev = filesToUpload st;
          st1 = (case find (\<lambda>f. uf_id f = i) prev of
                   Some fileToRemove \<Rightarrow> revokeObjectURL (previewUrl fileToRemove) st
                 | None \<Rightarrow> st)
      in setFilesToUpload (filter (\<lambda>f. uf_id f \<noteq> i)) st1)"

text \<open>
  \<^verbatim>\<open>handleUploadAll\<close>.  The answers of the backend during one run are given per queue entry
  (each entry of the run is uploaded at most once): the error of \<^verbatim>\<open>storage.upload\<close>, the error
  of \<^verbatim>\<open>from('photos').insert\<close>, and the SDK's local \<^verbatim>\<open>getPublicUrl\<close>.
\<close>

record backend =
  uploadError :: "uuid \<Rightarrow> err option"
  insertError :: "uuid \<Rightarrow> err option"
  getPublicUrl :: "fileName \<Rightarrow> string"

text \<open>
  \<^verbatim>\<open>name.replace(/\s/g, '_')\<close>.  A \<open>char\<close> is read as a code unit below 256; of the code units
  that \<^verbatim>\<open>\s\<close> matches these are tab, line feed, vertical tab, form feed, carriage return,
  space and the no-break space U+00A0 (the others are beyond what a \<open>char\<close> holds).
\<close>

definition isSpace :: "char \<Rightarrow> bool" where
  "isSpace c = (c \<in> set [CHR 0x09, CHR 0x0A, CHR 0x0B, CHR 0x0C, CHR 0x0D, CHR 0x20, CHR 0xA0])"

definition replaceSpaces :: "string \<Rightarrow> string" where
  "replaceSpaces s = map (\<lambda>c. if isSpace c then CHR ''_'' else c) s"

text \<open>A template literal's rendering of a counter: decimal digits.\<close>

fun showNat :: "nat \<Rightarrow> string" where
  "showNat n = (if n < 10 then [char_of (48 + n)] else showNat (n div 10) @ [char_of (48 + n mod 10)])"

declare showNat.simps [simp del]

text \<open>
  The body of the \<^verbatim>\<open>try\<close> block for one file; \<open>Some e\<close> is the message of the error thrown.
\<close>

definition uploadFile :: "backend \<Rightarrow> string \<Rightarrow> UploadableFile \<Rightarrow> page \<Rightarrow> err option \<times> page" where
  "uploadFile be aid uploadableFile st =
     (let file = uf_file uploadableFile;
          fileName = (nextUuid st, replaceSpaces (file_name file));
          st1 = st\<lparr>nextUuid := Suc (nextUuid st)\<rparr>;
          upErr = uploadError be (uf_id uploadableFile);
          st2 = call (StorageUpload fileName file) upErr st1
      in case upErr of
           Some e \<Rightarrow> (Some e, st2)
         | None \<Rightarrow>
             (let publicUrl = getPublicUrl be fileName;
                  insErr = insertError be (uf_id uploadableFile);
                  st3 = call (PhotosInsert publicUrl aid) insErr st2
              in case insErr of Some e \<Rightarrow> (Some e, st3) | None \<Rightarrow> (None, st3)))"

definition markUploading :: "page \<Rightarrow> page" where
  "markUploading st =
     setFilesToUpload (map (\<lambda>f. if status f = Queued then f\<lparr>status := Uploading\<rparr> else f)) st"

definition markSuccess :: "uuid \<Rightarrow> page \<Rightarrow> page" where
  "markSuccess i st =
     setFilesToUpload (map (\<lambda>f. if uf_id f = i then f\<lparr>status := Success\<rparr> else f)) st"

definition markError :: "uuid \<Rightarrow> err \<Rightarrow> page \<Rightarrow> page" where
  "markError i e st =
     setFilesToUpload (map (\<lambda>f. if uf_id f = i then f\<lparr>status := Error, uf_error := Some e\<rparr> else f)) st"

text \<open>The \<^verbatim>\<open>for\<close> loop over \<^verbatim>\<open>filesToProcess\<close>, with \<^verbatim>\<open>successCount\<close> and \<^verbatim>\<open>errorCount\<close>.\<close>

fun uploadLoop :: "backend \<Rightarrow> string \<Rightarrow> UploadableFile list \<Rightarrow> nat \<times> nat \<times> page \<Rightarrow> nat \<times> nat \<times> page" where
  "uploadLoop be aid [] acc = acc"
| "uploadLoop be aid (uploadableFile # rest) (successCount, errorCount, st) =
     (case uploadFile be aid uploadableFile st of
        (None, st1) \<Rightarrow>
          uploadLoop be aid rest (Suc successCount, errorCount, markSuccess (uf_id uploadableFile) st1)
      | (Some e, st1) \<Rightarrow>
          uploadLoop be aid rest (successCount, Suc errorCount, markError (uf_id uploadableFile) e st1))"

definition handleUploadAll :: "backend \<Rightarrow> page \<Rightarrow> page" where
  "handleUploadAll be st =
     (if \<not> truthy (albumId st) then st
      else
        (let filesToProcess = filter (\<lambda>f. status f = Queued) (filesToUpload st) in
         if length filesToProcess = 0 then addToast ''Tidak ada foto dalam antrean.'' TInfo st
         else
           (case uploadLoop be (the (albumId st)) filesToProcess (0, 0, markUploading st) of
              (successCount, errorCount, st2) \<Rightarrow>
                (let st3 = (if successCount > 0
                            then refresh (addToast (showNat successCount @ '' foto berhasil diunggah.'') TSuccess st2)
                            else st2);
                     st4 = (if errorCount > 0
                            then addToast (showNat errorCount @ '' foto gagal diunggah.'') TError st3
                            else st3)
                 in st4\<lparr>timers := Suc (timers st4)\<rparr>))))"

text \<open>The callback handed to \<^verbatim>\<open>setTimeout(..., 3000)\<close> at the end of \<^verbatim>\<open>handleUploadAll\<close>.\<close>

definition uploadAllTimeout :: "page \<Rightarrow> page" where
  "uploadAllTimeout st = setFilesToUpload (filter (\<lambda>f. status f \<noteq> Success)) st"

section \<open>Admin handlers that call the backend\<close>

text \<open>
  \<^verbatim>\<open>String.prototype.split\<close> with a string separator: the occurrences are found from left
  to right and do not overlap.  \<^verbatim>\<open>.pop()\<close> then takes the last piece, which always exists.
\<close>

fun splitFrom :: "string \<Rightarrow> string \<Rightarrow> string \<Rightarrow> string list" where
  "splitFrom sep acc [] = [rev acc]"
| "splitFrom sep acc (c # cs) =
     (if sep \<noteq> [] \<and> prefix sep (c # cs)
      then rev acc # splitFrom sep [] (drop (length sep) (c # cs))
      else splitFrom sep (c # acc) cs)"

definition split :: "string \<Rightarrow> string \<Rightarrow> string list" where
  "split sep s = (if sep = [] then map (\<lambda>c. [c]) s else splitFrom sep [] s)"

definition storagePath :: "string \<Rightarrow> string" where
  "storagePath url = last (split ''/gallery/'' url)"

definition handleLogin :: "string \<Rightarrow> string \<Rightarrow> err option \<Rightarrow> page \<Rightarrow> page" where
  "handleLogin email password err st =
     (let st1 = call (SignInWithPassword email password) err st
      in case err of
           Some e \<Rightarrow> addToast e TError st1
         | None \<Rightarrow> navigate ''/admin'' (addToast ''Login berhasil!'' TSuccess st1))"

definition handleLogout :: "err option \<Rightarrow> page \<Rightarrow> page" where
  "handleLogout err st =
     (let st1 = call SignOut err st
      in case err of
           Some e \<Rightarrow> addToast (''Gagal logout: '' @ e) TError st1
         | None \<Rightarrow> navigate ''/admin/login'' (addToast ''Anda berhasil logout.'' TSuccess st1))"

text \<open>
  \<^verbatim>\<open>fetchAlbumsAndStats\<close>: the album list comes from one RPC, the total number of photos
  from one \<^verbatim>\<open>select('*', { count: 'exact', head: true })\<close>.
\<close>

definition fetchAlbumsAndStats :: "Album list response \<Rightarrow> nat response \<Rightarrow> page \<Rightarrow> page" where
  "fetchAlbumsAndStats albumsResult photosCountResult st =
     (let st1 = call RpcAlbumsWithPhotoCount (error albumsResult) st;
          st2 = call PhotosCount (error photosCountResult) st1;
          st3 = (case error albumsResult of
                   Some e \<Rightarrow> addToast (''Gagal memuat album: '' @ e) TError st2
                 | None \<Rightarrow>
                     (case data albumsResult of
                        Some albumsData \<Rightarrow> st2\<lparr>albums := albumsData, albumCount := length albumsData\<rparr>
                      | None \<Rightarrow> st2))
      in case error photosCountResult of
           Some e \<Rightarrow> addToast (''Gagal menghitung total foto: '' @ e) TError st3
         | None \<Rightarrow> st3\<lparr>photoCount := (case data photosCountResult of Some n \<Rightarrow> n | None \<Rightarrow> 0)\<rparr>)"

text \<open>
  \<^verbatim>\<open>handleDelete\<close> of the dashboard.  \<open>confirmed\<close> is the answer of \<^verbatim>\<open>window.confirm\<close>;
  \<open>photosResult\<close> carries the \<^verbatim>\<open>image_url\<close> of each row selected.
\<close>

definition filePathsOf :: "string list \<Rightarrow> string list" where
  "filePathsOf photos = filter (\<lambda>p. p \<noteq> []) (map storagePath photos)"

definition handleDelete ::
  "bool \<Rightarrow> string \<Rightarrow> string \<Rightarrow> string list response \<Rightarrow> err option \<Rightarrow> err option \<Rightarrow> page \<Rightarrow> page" where
  "handleDelete confirmed aid albumTitle photosResult storageError dbError st =
     (if \<not> confirmed then st
      else
        (let st1 = call (PhotosSelectUrls aid) (error photosResult) st in
         case error photosResult of
           Some e \<Rightarrow> addToast (''Gagal mendapatkan daftar foto: '' @ e) TError st1
         | None \<Rightarrow>
             (let st2 =
                (case data photosResult of
                   None \<Rightarrow> st1
                 | Some photos \<Rightarrow>
                     if length photos > 0 then
                       (let filePaths = filePathsOf photos in
                        if length filePaths > 0 then
                          (let st1a = call (StorageRemove filePaths) storageError st1
                           in case storageError of
                                Some e \<Rightarrow> addToast (''Gagal menghapus beberapa file: '' @ e) TError st1a
                              | None \<Rightarrow> st1a)
                        else st1)
                     else st1);
                  st3 = call (AlbumsDelete aid) dbError st2
              in case dbError of
                   Some e \<Rightarrow> addToast (''Gagal menghapus album: '' @ e) TError st3
                 | None \<Rightarrow>
                     refresh (addToast (''Album '' @ [CHR 0x22] @ albumTitle @ [CHR 0x22] @ '' berhasil dihapus.'')
                                TSuccess st3))))"

text \<open>
  \<^verbatim>\<open>handleAlbumSave\<close>.  \<open>created\<close> is the answer to the insert (an error, or the new row's
  id); \<open>albumError\<close> and \<open>captionError\<close> are the answers to the updates sent together by
  \<^verbatim>\<open>Promise.all\<close>.  \<open>caps\<close> is the \<^verbatim>\<open>captions\<close> record as its list of entries, in key order.
\<close>

definition handleAlbumSave ::
  "(string \<times> string) list \<Rightarrow> err + string \<Rightarrow> err option \<Rightarrow> (string \<Rightarrow> err option) \<Rightarrow> page \<Rightarrow> page" where
  "handleAlbumSave caps created albumError captionError st =
     (if \<not> truthy (title (album st)) then addToast ''Judul album tidak boleh kosong.'' TError st
      else if \<not> truthy (albumId st) then
        (let st1 = call (AlbumsInsert (title (album st)) (description (album st)))
                     (case created of Inl e \<Rightarrow> Some e | Inr newId \<Rightarrow> None) st
         in case created of
              Inl e \<Rightarrow> addToast (''Gagal membuat album: '' @ e) TError st1
            | Inr newId \<Rightarrow>
                navigate (''/admin/album/'' @ newId) (addToast ''Album berhasil dibuat.'' TSuccess st1))
      else
        (let st1 = call (AlbumsUpdate (albumId st) (title (album st)) (description (album st))) albumError st;
             st2 = fold (\<lambda>(photoId, cap). call (PhotosUpdateCaption photoId cap) (captionError photoId)) caps st1
         in if albumError \<noteq> None \<or> list_ex (\<lambda>(photoId, cap). captionError photoId \<noteq> None) caps
            then addToast ''Gagal menyimpan perubahan.'' TError st2
            else addToast ''Perubahan berhasil disimpan.'' TSuccess st2))"

definition handleSetCover :: "string \<Rightarrow> err option \<Rightarrow> page \<Rightarrow> page" where
  "handleSetCover photoUrl err st =
     (let st1 = call (AlbumsUpdateCover (albumId st) (Some photoUrl)) err st
      in case err of
           Some e \<Rightarrow> addToast (''Gagal mengatur foto sampul: '' @ e) TError st1
         | None \<Rightarrow>
             (let st2 = addToast ''Foto sampul berhasil diperbarui.'' TSuccess st1
              in st2\<lparr>album := (album st2)\<lparr>cover_image_url := Some photoUrl\<rparr>\<rparr>))"

text \<open>
  \<^verbatim>\<open>handleDeletePhoto\<close> of the editor.  \<open>coverError\<close> is the answer to the update that resets
  the cover; the code awaits it and does not look at it.
\<close>

definition handleDeletePhoto ::
  "bool \<Rightarrow> Photo \<Rightarrow> err option \<Rightarrow> err option \<Rightarrow> err option \<Rightarrow> page \<Rightarrow> page" where
  "handleDeletePhoto confirmed photo storageError dbError coverError st =
     (if \<not> confirmed then st
      else
        (let filePath = storagePath (image_url photo) in
         if filePath = [] then addToast ''URL foto tidak valid.'' TError st
         else
           (let st1 = call (StorageRemove [filePath]) storageError st in
            case storageError of
              Some e \<Rightarrow> addToast (''Gagal menghapus file dari storage: '' @ e) TError st1
            | None \<Rightarrow>
                (let st2 = call (PhotosDelete (photo_id photo)) dbError st1 in
                 case dbError of
                   Some e \<Rightarrow> addToast (''Gagal menghapus data foto: '' @ e) TError st2
                 | None \<Rightarrow>
                     (let st3 = addToast ''Foto berhasil dihapus.'' TSuccess st2;
                          st4 = (if cover_image_url (album st) = Some (image_url photo)
                                 then call (AlbumsUpdateCover (album_id (album st)) None) coverError st3
                                 else st3)
                      in refresh st4)))))"

text \<open>
  \<^verbatim>\<open>handleFileUpload\<close>, the upload of the editor without a queue.  All uploads are started
  by \<^verbatim>\<open>Promise.all\<close> over the mapped files, \<open>now i\<close> is \<^verbatim>\<open>Date.now()\<close> when the \<open>i\<close>-th starts
  and \<open>upErr i\<close> its answer; the rows are inserted by one call when every upload succeeded.
  \<^verbatim>\<open>Promise.all\<close> rejects with the rejection that settles first, which the network decides:
  \<open>order\<close> lists the uploads in the order in which they settle (those it leaves out settle
  after them, in array order), and the error caught is the first rejection in that order.
\<close>

definition handleFileUpload ::
  "File list option \<Rightarrow> (nat \<Rightarrow> nat) \<Rightarrow> (nat \<Rightarrow> err option) \<Rightarrow> nat list \<Rightarrow> (fileName \<Rightarrow> string) \<Rightarrow>
   err option \<Rightarrow> page \<Rightarrow> page" where
  "handleFileUpload files now upErr order publicUrl insertErr st =
     (case files of
        None \<Rightarrow> st
      | Some fs \<Rightarrow>
          if length fs = 0 \<or> \<not> truthy (albumId st) then st
          else
            (let st1 = fold (\<lambda>(i, file). call (StorageUpload (now i, replaceSpaces (file_name file)) file) (upErr i))
                         (enumerate 0 fs) st
             in case filter (\<lambda>i. i < length fs \<and> upErr i \<noteq> None) (order @ [0..<length fs]) of
                  i # later \<Rightarrow> addToast (''Gagal mengunggah foto: '' @ the (upErr i)) TError st1
                | [] \<Rightarrow>
                    (let newPhotosData =
                           map (\<lambda>(i, file). (publicUrl (now i, replaceSpaces (file_name file)), the (albumId st)))
                             (enumerate 0 fs);
                         st2 = call (PhotosInsertMany newPhotosData) insertErr st1
                     in case insertErr of
                          Some e \<Rightarrow> addToast (''Gagal mengunggah foto: '' @ e) TError st2
                        | None \<Rightarrow>
                            refresh (addToast (showNat (length fs) @ '' foto berhasil diunggah.'') TSuccess st2))))"

text \<open>
  The editor's state at mount (the initial values given to \<^verbatim>\<open>useState\<close>), with empty logs.
\<close>

definition initialPage :: "string option \<Rightarrow> page" where
  "initialPage aid =
     \<lparr>toasts = [], calls = [], navigated = [], albumId = aid,
      album = \<lparr>album_id = None, title = Some [], description = Some [], cover_image_url = None,
                created_at = None, photo_count = None\<rparr>,
      filesToUpload = [], revoked = [], nextUuid = 0, nextBlob = 0, refreshes = 0, timers = 0,
      albums = [], albumCount = 0, photoCount = 0\<rparr>"

section \<open>The queue as a state machine\<close>

text \<open>
  \<^verbatim>\<open>handleUploadAll\<close> is asynchronous: between two of its \<^verbatim>\<open>await\<close>s the other handlers can
  run.  The machine below has one event for each piece that runs without interruption:
  the two synchronous handlers, the start of \<^verbatim>\<open>handleUploadAll\<close> (up to its first \<^verbatim>\<open>await\<close>),
  the end of one loop iteration (the \<^verbatim>\<open>try\<close> block returned, or threw the message given),
  and the timer's callback.  The second component holds the \<^verbatim>\<open>filesToProcess\<close> still to
  be settled.
\<close>

datatype event =
    FileSelect "File list option"
  | RemoveFile uuid
  | UploadAllStart
  | UploadSettled "err option"
  | TimeoutFired

fun step :: "event \<Rightarrow> page \<times> UploadableFile list \<Rightarrow> page \<times> UploadableFile list" where
  "step (FileSelect selectedFiles) (st, pending) = (handleFileSelect selectedFiles st, pending)"
| "step (RemoveFile i) (st, pending) = (removeFileFromQueue i st, pending)"
| "step UploadAllStart (st, pending) =
     (if \<not> truthy (albumId st) then (st, pending)
      else
        (let filesToProcess = filter (\<lambda>f. status f = Queued) (filesToUpload st) in
         if length filesToProcess = 0 then (addToast ''Tidak ada foto dalam antrean.'' TInfo st, pending)
         else (markUploading st, pending @ filesToProcess)))"
| "step (UploadSettled r) (st, []) = (st, [])"
| "step (UploadSettled r) (st, uploadableFile # pending) =
     (case r of
        None \<Rightarrow> (markSuccess (uf_id uploadableFile) st, pending)
      | Some e \<Rightarrow> (markError (uf_id uploadableFile) e st, pending))"
| "step TimeoutFired (st, pending) = (uploadAllTimeout st, pending)"

definition run :: "event list \<Rightarrow> page \<times> UploadableFile list \<Rightarrow> page \<times> UploadableFile list" where
  "run evs s = foldl (\<lambda>s ev. step ev s) s evs"

definition reachable :: "page \<times> UploadableFile list \<Rightarrow> bool" where
  "reachable s = (\<exists>aid evs. s = run evs (initialPage aid, []))"

section \<open>Public gallery: the album page and its lightbox\<close>

text \<open>
  \<^verbatim>\<open>AlbumDetailPage\<close> keeps the photos loaded for the album of the route, and two states for
  the lightbox, \<^verbatim>\<open>lightboxOpen\<close> and \<^verbatim>\<open>selectedPhotoIndex\<close>.  A click on the \<open>i\<close>-th rendered photo
  calls \<^verbatim>\<open>openLightbox(i)\<close>.  The effect \<^verbatim>\<open>fetchAlbumDetails\<close> runs again when the route's \<^verbatim>\<open>albumId\<close>
  changes and replaces the photos when the select succeeds; it touches neither of the
  lightbox states.  While \<^verbatim>\<open>lightboxOpen\<close> holds, \<^verbatim>\<open>PhotoLightbox\<close> is mounted over the loaded
  photos with \<^verbatim>\<open>selectedPhotoIndex\<close> as its start index; it renders nothing when there is no
  photo at its index (\<^verbatim>\<open>if (!photo) return null\<close>), but its key handler stays registered.
\<close>

record detailPage =
  loadedPhotos :: "Photo list"
  lightboxOpen :: bool
  selectedPhotoIndex :: int

definition initialDetailPage :: detailPage where
  "initialDetailPage = \<lparr>loadedPhotos = [], lightboxOpen = False, selectedPhotoIndex = 0\<rparr>"

definition openLightbox :: "int \<Rightarrow> detailPage \<Rightarrow> detailPage" where
  "openLightbox index st = st\<lparr>selectedPhotoIndex := index, lightboxOpen := True\<rparr>"

definition clickPhoto :: "nat \<Rightarrow> detailPage \<Rightarrow> detailPage" where
  "clickPhoto i st = (if i < length (loadedPhotos st) then openLightbox (int i) st else st)"

definition fetchAlbumDetails :: "err + Photo list \<Rightarrow> detailPage \<Rightarrow> detailPage" where
  "fetchAlbumDetails photosResult st =
     (case photosResult of
        Inl photosError \<Rightarrow> st
      | Inr photosData \<Rightarrow> st\<lparr>loadedPhotos := photosData\<rparr>)"

definition lightboxStart :: "detailPage \<Rightarrow> int option" where
  "lightboxStart st = (if lightboxOpen st then Some (selectedPhotoIndex st) else None)"

section \<open>Vocabulary of the properties\<close>

text \<open>
  The acceptance condition for a selected file as the specification words it, and the
  error toast a rejected file is reported with.
\<close>

definition acceptable :: "File \<Rightarrow> bool" where
  "acceptable f = (prefix ''image/'' (file_type f) \<and> file_size f \<le> 5 * 1024 * 1024)"

definition rejectionToast :: "File \<Rightarrow> ToastMessage" where
  "rejectionToast f =
     \<lparr>message = ''File '' @ file_name f @
                 (if prefix ''image/'' (file_type f) then '' terlalu besar (> 5MB).'' else '' bukan gambar.''),
      ttype = TError\<rparr>"

text \<open>The three status changes the specification allows.\<close>

definition statusMove :: "status \<Rightarrow> status \<Rightarrow> bool" where
  "statusMove a b = ((a = Queued \<and> b = Uploading) \<or> (a = Uploading \<and> b = Success) \<or> (a = Uploading \<and> b = Error))"

text \<open>
  The outcome of uploading one queue entry: the message of the first failing call, if any,
  and the entry as the specification wants it afterwards.
\<close>

definition failure :: "backend \<Rightarrow> UploadableFile \<Rightarrow> err option" where
  "failure be f = (case uploadError be (uf_id f) of Some e \<Rightarrow> Some e | None \<Rightarrow> insertError be (uf_id f))"

definition settled :: "backend \<Rightarrow> UploadableFile \<Rightarrow> UploadableFile" where
  "settled be f =
     (case failure be f of
        None \<Rightarrow> f\<lparr>status := Success\<rparr>
      | Some e \<Rightarrow> f\<lparr>status := Error, uf_error := Some e\<rparr>)"

text \<open>Classifying the requests of a log.\<close>

fun isStorageUpload :: "request \<times> err option \<Rightarrow> bool" where
  "isStorageUpload (StorageUpload n f, e) = True"
| "isStorageUpload other = False"

fun isPhotosInsert :: "request \<times> err option \<Rightarrow> bool" where
  "isPhotosInsert (PhotosInsert u a, e) = True"
| "isPhotosInsert (PhotosInsertMany rows, e) = True"
| "isPhotosInsert other = False"

fun uploadedFile :: "request \<times> err option \<Rightarrow> File option" where
  "uploadedFile (StorageUpload n f, e) = Some f"
| "uploadedFile other = None"

text \<open>
  The toast contract as the specification words it, for the calls and toasts of one run:
  a success toast exactly when no call failed, an error toast exactly when one did.
\<close>

definition toastContract :: "(request \<times> err option) list \<Rightarrow> ToastMessage list \<Rightarrow> bool" where
  "toastContract cs ts =
     ((list_ex (\<lambda>t. ttype t = TSuccess) ts = list_all (\<lambda>c. snd c = None) cs)
    \<and> (list_ex (\<lambda>t. ttype t = TError) ts = list_ex (\<lambda>c. snd c \<noteq> None) cs))"

text \<open>The requests one run of the upload loop is expected to send, file by file.\<close>

definition uploadCalls :: "backend \<Rightarrow> string \<Rightarrow> uuid \<Rightarrow> UploadableFile \<Rightarrow> (request \<times> err option) list" where
  "uploadCalls be aid n u =
     (StorageUpload (n, replaceSpaces (file_name (uf_file u))) (uf_file u), uploadError be (uf_id u))
     # (case uploadError be (uf_id u) of
          Some e \<Rightarrow> []
        | None \<Rightarrow> [(PhotosInsert (getPublicUrl be (n, replaceSpaces (file_name (uf_file u)))) aid,
                     insertError be (uf_id u))])"

fun runCalls :: "backend \<Rightarrow> string \<Rightarrow> uuid \<Rightarrow> UploadableFile list \<Rightarrow> (request \<times> err option) list" where
  "runCalls be aid n [] = []"
| "runCalls be aid n (u # us) = uploadCalls be aid n u @ runCalls be aid (Suc n) us"

text \<open>Example inputs, used to instantiate the theorems below.\<close>

definition pngFile :: File where
  "pngFile = \<lparr>file_name = ''a b.png'', file_type = ''image/png'', file_size = 2048\<rparr>"

definition textFile :: File where
  "textFile = \<lparr>file_name = ''notes.txt'', file_type = ''text/plain'', file_size = 10\<rparr>"

definition hugeFile :: File where
  "hugeFile = \<lparr>file_name = ''huge.png'', file_type = ''image/png'', file_size = 5242881\<rparr>"

definition exampleQueue :: "UploadableFile list" where
  "exampleQueue =
     [\<lparr>uf_id = 0, uf_file = pngFile, previewUrl = 0, status = Queued, uf_error = None\<rparr>,
      \<lparr>uf_id = 1, uf_file = pngFile, previewUrl = 1, status = Queued, uf_error = None\<rparr>,
      \<lparr>uf_id = 2, uf_file = pngFile, previewUrl = 2, status = Error, uf_error = Some ''timeout''\<rparr>]"

definition examplePage :: page where
  "examplePage = (initialPage (Some ''a1''))\<lparr>filesToUpload := exampleQueue, nextUuid := 3, nextBlob := 3\<rparr>"

definition exampleBackend :: backend where
  "exampleBackend =
     \<lparr>uploadError = (\<lambda>i. if i = 1 then Some ''quota'' else None),
      insertError = (\<lambda>i. None),
      getPublicUrl = (\<lambda>n. ''https://h/storage/v1/object/public/gallery/'' @ snd n)\<rparr>"

text \<open>What one handler run added to the logs.\<close>

definition addedCalls :: "page \<Rightarrow> page \<Rightarrow> (request \<times> err option) list" where
  "addedCalls st st' = drop (length (calls st)) (calls st')"

definition addedToasts :: "page \<Rightarrow> page \<Rightarrow> ToastMessage list" where
  "addedToasts st st' = drop (length (toasts st)) (toasts st')"

text \<open>A stored photo and an editor state whose album has it as cover.\<close>

definition examplePhoto :: Photo where
  "examplePhoto = \<lparr>photo_id = ''p1'', photo_album_id = ''a1'', image_url = ''https://h/public/gallery/7-a.png'',
                    caption = None, photo_created_at = ''2024-01-01''\<rparr>"

definition coverPage :: page where
  "coverPage = (initialPage (Some ''a1''))\<lparr>album := \<lparr>album_id = Some ''a1'', title = Some ''Trip'', description = None,
       cover_image_url = Some ''https://h/public/gallery/7-a.png'', created_at = None, photo_count = None\<rparr>\<rparr>"

text \<open>Further request classes: storage removals, album-row deletions, resets of the cover.\<close>

fun isStorageRemove :: "request \<times> err option \<Rightarrow> bool" where
  "isStorageRemove (StorageRemove ps, e) = True"
| "isStorageRemove other = False"

fun isAlbumsDelete :: "request \<times> err option \<Rightarrow> bool" where
  "isAlbumsDelete (AlbumsDelete i, e) = True"
| "isAlbumsDelete other = False"

fun isCoverReset :: "request \<times> err option \<Rightarrow> bool" where
  "isCoverReset (AlbumsUpdateCover i None, e) = True"
| "isCoverReset other = False"

text \<open>
  The invariant of the queue machine: ids in the queue are pairwise different and below the
  next fresh id, and so are the ids of the entries still to be settled, each of which, as
  far as it is still in the queue, has status \<^verbatim>\<open>uploading\<close>.
\<close>

definition queueInv :: "page \<times> UploadableFile list \<Rightarrow> bool" where
  "queueInv s =
     (distinct (map uf_id (filesToUpload (fst s)))
    \<and> list_all (\<lambda>f. uf_id f < nextUuid (fst s)) (filesToUpload (fst s))
    \<and> list_all (\<lambda>u. uf_id u < nextUuid (fst s)) (snd s)
    \<and> distinct (map uf_id (snd s))
    \<and> list_all (\<lambda>u. list_all (\<lambda>f. uf_id f \<noteq> uf_id u \<or> status f = Uploading) (filesToUpload (fst s))) (snd s))"

text \<open>
  How an entry of the queue after a step relates to the queue before it: an entry whose id
  was not there is \<^verbatim>\<open>queued\<close>; otherwise its status is the one it had or follows it by an
  allowed change.
\<close>

definition tracked :: "UploadableFile list \<Rightarrow> UploadableFile \<Rightarrow> bool" where
  "tracked before f' =
     (case find (\<lambda>f. uf_id f = uf_id f') before of
        None \<Rightarrow> status f' = Queued
      | Some f \<Rightarrow> status f' = status f \<or> statusMove (status f) (status f'))"

text \<open>Two selections of one picture each, on a freshly mounted editor.\<close>

definition twoSelections :: page where
  "twoSelections = handleFileSelect (Some [pngFile]) (handleFileSelect (Some [pngFile]) (initialPage (Some ''a1'')))"

text \<open>
  The album page after this history: an album of ten photos is loaded, the photo at
  position \<open>i\<close> is clicked, and the route changes to an album of three photos, which is loaded.
\<close>

definition staleDetailPage :: "nat \<Rightarrow> detailPage" where
  "staleDetailPage i =
     fetchAlbumDetails (Inr (replicate 3 examplePhoto))
       (clickPhoto i (fetchAlbumDetails (Inr (replicate 10 examplePhoto)) initialDetailPage))"

section \<open>Properties\<close>

subsection \<open>Frame lemmas for the state primitives\<close>

lemma effectCleanup_fields [simp]:
  "toasts (effectCleanup fs st) = toasts st"
  "calls (effectCleanup fs st) = calls st"
  "filesToUpload (effectCleanup fs st) = filesToUpload st"
  "nextUuid (effectCleanup fs st) = nextUuid st"
  "nextBlob (effectCleanup fs st) = nextBlob st"
  "albumId (effectCleanup fs st) = albumId st"
  "album (effectCleanup fs st) = album st"
  "navigated (effectCleanup fs st) = navigated st"
  "refreshes (effectCleanup fs st) = refreshes st"
  "timers (effectCleanup fs st) = timers st"
  "revoked (effectCleanup fs st) = revoked st @ map previewUrl fs"
  unfolding effectCleanup_def
  by (induction fs arbitrary: st; simp add: revokeObjectURL_def)+

lemma setFilesToUpload_fields [simp]:
  "toasts (setFilesToUpload upd st) = toasts st"
  "calls (setFilesToUpload upd st) = calls st"
  "filesToUpload (setFilesToUpload upd st) = upd (filesToUpload st)"
  "nextUuid (setFilesToUpload upd st) = nextUuid st"
  "nextBlob (setFilesToUpload upd st) = nextBlob st"
  "albumId (setFilesToUpload upd st) = albumId st"
  "album (setFilesToUpload upd st) = album st"
  "navigated (setFilesToUpload upd st) = navigated st"
  "refreshes (setFilesToUpload upd st) = refreshes st"
  "timers (setFilesToUpload upd st) = timers st"
  "revoked (setFilesToUpload upd st) = revoked st @ map previewUrl (filesToUpload st)"
  by (simp_all add: setFilesToUpload_def Let_def)

subsection \<open>Selecting files\<close>

lemma mapFiles_result:
  "mapFiles files st = (rs, st') \<Longrightarrow>
     map uf_file (map the (filter (\<lambda>f. f \<noteq> None) rs)) = filter acceptable files
   \<and> list_all (\<lambda>u. status u = Queued \<and> uf_error u = None) (map the (filter (\<lambda>f. f \<noteq> None) rs))
   \<and> toasts st' = toasts st @ map rejectionToast (filter (\<lambda>f. \<not> acceptable f) files)
   \<and> filesToUpload st' = filesToUpload st \<and> revoked st' = revoked st \<and> calls st' = calls st"
proof (induction files arbitrary: st rs st')
  case Nil
  then show ?case by simp
next
  case (Cons f fs)
  obtain r st1 where one: "selectFile f st = (r, st1)" by (cases "selectFile f st")
  obtain rs' st2 where rest: "mapFiles fs st1 = (rs', st2)" by (cases "mapFiles fs st1")
  from Cons.prems one rest have eq: "rs = r # rs'" "st' = st2" by simp_all
  note IH = Cons.IH [OF rest]
  show ?case
  proof (cases "acceptable f")
    case True
    with one have "r \<noteq> None" "uf_file (the r) = f" "status (the r) = Queued" "uf_error (the r) = None"
      "toasts st1 = toasts st" "filesToUpload st1 = filesToUpload st" "revoked st1 = revoked st"
      "calls st1 = calls st"
      by (auto simp: selectFile_def acceptable_def split: if_splits)
    with IH True eq show ?thesis by simp
  next
    case False
    with one have "r = None" "toasts st1 = toasts st @ [rejectionToast f]"
      "filesToUpload st1 = filesToUpload st" "revoked st1 = revoked st" "calls st1 = calls st"
      by (auto simp: selectFile_def acceptable_def rejectionToast_def addToast_def split: if_splits)
    with IH False eq show ?thesis by simp
  qed
qed

text \<open>
  C1.  \<^verbatim>\<open>handleFileSelect\<close> appends to the queue one entry, with status \<^verbatim>\<open>queued\<close>, for exactly
  the selected files whose type starts with \<^verbatim>\<open>image/\<close> and whose size is at most
  \<open>5 * 1024 * 1024\<close> bytes, in their order; every other selected file is left out and gets
  exactly one error toast, whose text holds the file's name.  Without a file list nothing
  happens.
\<close>

theorem handleFileSelect_enqueues_valid_files:
  "(\<exists>newFiles.
      filesToUpload (handleFileSelect (Some files) st) = filesToUpload st @ newFiles
    \<and> map uf_file newFiles = filter acceptable files
    \<and> list_all (\<lambda>u. status u = Queued) newFiles)
   \<and> toasts (handleFileSelect (Some files) st)
       = toasts st @ map rejectionToast (filter (\<lambda>f. \<not> acceptable f) files)
   \<and> handleFileSelect None st = st"
proof -
  obtain rs st1 where m: "mapFiles files st = (rs, st1)" by (cases "mapFiles files st")
  from mapFiles_result [OF m] m show ?thesis
    by (auto simp: handleFileSelect_def Let_def list_all_iff)
qed

subsection \<open>Lightbox\<close>

lemma handleKeyDown_in_range:
  "0 \<le> i \<Longrightarrow> i < int (length photos) \<Longrightarrow>
   0 \<le> handleKeyDown photos k i \<and> handleKeyDown photos k i < int (length photos)"
  by (cases k) (auto simp: goToPrevious_def goToNext_def)

lemma foldl_keys_in_range:
  "0 \<le> i \<Longrightarrow> i < int (length photos) \<Longrightarrow>
   0 \<le> foldl (\<lambda>i k. handleKeyDown photos k i) i ks \<and>
   foldl (\<lambda>i k. handleKeyDown photos k i) i ks < int (length photos)"
proof (induction ks arbitrary: i)
  case Nil
  then show ?case by simp
next
  case (Cons k ks)
  from handleKeyDown_in_range [OF Cons.prems] Cons.IH show ?case by simp
qed

lemma lightboxIndex_in_range:
  "startIndex < length photos \<Longrightarrow>
   0 \<le> lightboxIndex photos startIndex ks \<and> lightboxIndex photos startIndex ks < int (length photos)"
  unfolding lightboxIndex_def by (rule foldl_keys_in_range) simp_all

text \<open>
  C9, as stated, fails.  The lightbox can be mounted over a non-empty list with an index
  that is no position of it: opened at position 9 of an album of ten photos and carried
  over to an album of three, it starts at 9 and \<^verbatim>\<open>goToNext\<close> moves it to 10, outside \<open>[0, 2]\<close>;
  opened at position 3 instead, \<^verbatim>\<open>goToPrevious\<close> followed by \<^verbatim>\<open>goToNext\<close> ends at 0, not at 3.
\<close>

theorem lightbox_stale_index_counterexample:
  "lightboxStart (staleDetailPage 9) = Some 9
   \<and> loadedPhotos (staleDetailPage 9) \<noteq> []
   \<and> \<not> goToNext (loadedPhotos (staleDetailPage 9)) 9 \<le> int (length (loadedPhotos (staleDetailPage 9))) - 1
   \<and> lightboxStart (staleDetailPage 3) = Some 3
   \<and> goToNext (loadedPhotos (staleDetailPage 3)) (goToPrevious (loadedPhotos (staleDetailPage 3)) 3) \<noteq> 3"
  by (simp add: staleDetailPage_def fetchAlbumDetails_def clickPhoto_def openLightbox_def
        initialDetailPage_def lightboxStart_def goToNext_def goToPrevious_def)

text \<open>
  C9, amended.  For a non-empty photo list and a current index that is a position of the
  list (as is every index reached from a start index that is one, by
  \<open>lightboxIndex_in_range\<close>), \<^verbatim>\<open>goToNext\<close> and \<^verbatim>\<open>goToPrevious\<close> stay within
  \<open>[0, length photos - 1]\<close>, wrap around at both ends, and undo each other in both orders.
\<close>

theorem lightbox_navigation_inverse:
  assumes "photos \<noteq> []" and "0 \<le> i" and "i < int (length photos)"
  shows "0 \<le> goToNext photos i \<and> goToNext photos i \<le> int (length photos) - 1
       \<and> 0 \<le> goToPrevious photos i \<and> goToPrevious photos i \<le> int (length photos) - 1
       \<and> goToPrevious photos (goToNext photos i) = i
       \<and> goToNext photos (goToPrevious photos i) = i
       \<and> goToNext photos (int (length photos) - 1) = 0
       \<and> goToPrevious photos 0 = int (length photos) - 1"
  using assms by (auto simp: goToPrevious_def goToNext_def)

theorem lightbox_navigation_inverse_witness:
  "goToNext [''a'', ''b'', ''c''] 2 = 0 \<and> goToPrevious [''a'', ''b'', ''c''] 0 = 2
   \<and> goToPrevious [''a'', ''b'', ''c''] (goToNext [''a'', ''b'', ''c''] 2) = 2
   \<and> goToNext [''a'', ''b'', ''c''] (goToPrevious [''a'', ''b'', ''c''] 0) = 0"
  using lightbox_navigation_inverse [of "[''a'', ''b'', ''c'']" 2]
        lightbox_navigation_inverse [of "[''a'', ''b'', ''c'']" 0]
  by simp

subsection \<open>Uploading the queue\<close>

lemmas effect_defs = call_def addToast_def navigate_def refresh_def

lemma uploadFile_effect:
  "uploadFile be aid u st = (r, st') \<Longrightarrow>
     r = failure be u \<and> calls st' = calls st @ uploadCalls be aid (nextUuid st) u
   \<and> nextUuid st' = Suc (nextUuid st) \<and> filesToUpload st' = filesToUpload st
   \<and> toasts st' = toasts st \<and> albumId st' = albumId st \<and> refreshes st' = refreshes st
   \<and> timers st' = timers st \<and> revoked st' = revoked st"
  by (auto simp: uploadFile_def failure_def uploadCalls_def call_def Let_def split: option.splits)

lemma settled_simps [simp]:
  "uf_id (settled be f) = uf_id f"
  "failure be (settled be f) = failure be f"
  "settled be (settled be f) = settled be f"
  "uf_file (settled be f) = uf_file f"
  by (auto simp: settled_def failure_def split: option.splits)

lemma settled_marked [simp]: "settled be (f\<lparr>status := Uploading\<rparr>) = settled be f"
  by (auto simp: settled_def failure_def split: option.splits)

lemma uploadLoop_effect:
  "uploadLoop be aid us (sc, ec, st) = (sc', ec', st') \<Longrightarrow>
     filesToUpload st' = map (\<lambda>f. if uf_id f \<in> uf_id ` set us then settled be f else f) (filesToUpload st)
   \<and> calls st' = calls st @ runCalls be aid (nextUuid st) us
   \<and> toasts st' = toasts st \<and> albumId st' = albumId st \<and> refreshes st' = refreshes st
   \<and> timers st' = timers st
   \<and> sc' = sc + length (filter (\<lambda>u. failure be u = None) us)
   \<and> ec' = ec + length (filter (\<lambda>u. failure be u \<noteq> None) us)"
proof (induction us arbitrary: sc ec st)
  case Nil
  then show ?case by simp
next
  case (Cons u us)
  obtain r st1 where uf: "uploadFile be aid u st = (r, st1)" by (cases "uploadFile be aid u st")
  note E = uploadFile_effect [OF uf]
  show ?case
  proof (cases r)
    case None
    with Cons.prems uf
    have loop: "uploadLoop be aid us (Suc sc, ec, markSuccess (uf_id u) st1) = (sc', ec', st')"
      by simp
    from E None have ok: "failure be u = None" by simp
    have q: "filesToUpload (markSuccess (uf_id u) st1)
               = map (\<lambda>f. if uf_id f = uf_id u then settled be f else f) (filesToUpload st)"
      using E ok by (auto simp: markSuccess_def settled_def failure_def split: option.splits)
    from Cons.IH [OF loop] E ok q show ?thesis
      by (auto simp: markSuccess_def)
  next
    case (Some e)
    with Cons.prems uf
    have loop: "uploadLoop be aid us (sc, Suc ec, markError (uf_id u) e st1) = (sc', ec', st')"
      by simp
    from E Some have bad: "failure be u = Some e" by simp
    have q: "filesToUpload (markError (uf_id u) e st1)
               = map (\<lambda>f. if uf_id f = uf_id u then settled be f else f) (filesToUpload st)"
      using E bad by (auto simp: markError_def settled_def failure_def split: option.splits)
    from Cons.IH [OF loop] E bad q show ?thesis
      by (auto simp: markError_def)
  qed
qed


lemma runCalls_uploaded:
  "List.map_filter uploadedFile (runCalls be aid n us) = map uf_file us"
  by (induction us arbitrary: n)
     (auto simp: uploadCalls_def List.map_filter_def split: option.splits)

lemma handleUploadAll_effect:
  assumes a: "truthy (albumId st)" and d: "distinct (map uf_id (filesToUpload st))"
  shows "filesToUpload (handleUploadAll be st)
           = map (\<lambda>f. if status f = Queued then settled be f else f) (filesToUpload st)"
    and "calls (handleUploadAll be st)
           = calls st @ runCalls be (the (albumId st)) (nextUuid st) (filter (\<lambda>f. status f = Queued) (filesToUpload st))"
    and "filter (\<lambda>f. status f = Queued) (filesToUpload st) \<noteq> [] \<Longrightarrow>
           timers (handleUploadAll be st) = Suc (timers st)"
proof -
  let ?q = "filter (\<lambda>f. status f = Queued) (filesToUpload st)"
  obtain sc ec st2 where loop: "uploadLoop be (the (albumId st)) ?q (0, 0, markUploading st) = (sc, ec, st2)"
    by (cases "uploadLoop be (the (albumId st)) ?q (0, 0, markUploading st)")
  note L = uploadLoop_effect [OF loop]
  have ids: "\<And>f. f \<in> set (filesToUpload st) \<Longrightarrow> (uf_id f \<in> uf_id ` set ?q) = (status f = Queued)"
  proof -
    fix f assume f: "f \<in> set (filesToUpload st)"
    show "(uf_id f \<in> uf_id ` set ?q) = (status f = Queued)"
    proof
      assume "uf_id f \<in> uf_id ` set ?q"
      then obtain g where g: "g \<in> set (filesToUpload st)" "status g = Queued" "uf_id g = uf_id f" by auto
      with d f have "g = f" by (meson distinct_map inj_onD)
      with g show "status f = Queued" by simp
    next
      assume "status f = Queued"
      with f show "uf_id f \<in> uf_id ` set ?q" by auto
    qed
  qed
  have fin: "filesToUpload st2 = map (\<lambda>f. if status f = Queued then settled be f else f) (filesToUpload st)"
    using L ids by (auto simp: markUploading_def)
  show "filesToUpload (handleUploadAll be st)
           = map (\<lambda>f. if status f = Queued then settled be f else f) (filesToUpload st)"
  proof (cases "?q = []")
    case True
    then have "\<And>f. f \<in> set (filesToUpload st) \<Longrightarrow> status f \<noteq> Queued"
      by (auto simp: filter_empty_conv)
    then have "map (\<lambda>f. if status f = Queued then settled be f else f) (filesToUpload st) = filesToUpload st"
      by (simp add: map_idI)
    with True a show ?thesis by (simp add: handleUploadAll_def addToast_def)
  next
    case False
    with a loop fin show ?thesis
      by (simp add: handleUploadAll_def Let_def effect_defs)
  qed
  show "calls (handleUploadAll be st)
           = calls st @ runCalls be (the (albumId st)) (nextUuid st) ?q"
  proof (cases "?q = []")
    case True
    with a show ?thesis by (simp add: handleUploadAll_def addToast_def)
  next
    case False
    with a loop L show ?thesis
      by (simp add: handleUploadAll_def Let_def effect_defs markUploading_def)
  qed
  show "timers (handleUploadAll be st) = Suc (timers st)" if "?q \<noteq> []"
    using that a loop L by (simp add: handleUploadAll_def Let_def effect_defs markUploading_def)
qed

text \<open>
  C3.  On an existing album (\<^verbatim>\<open>albumId\<close> set) and a queue whose ids are pairwise different, a
  run of \<^verbatim>\<open>handleUploadAll\<close> sends one storage upload for each entry that was \<^verbatim>\<open>queued\<close>, in
  queue order, and for no other; afterwards each of these entries has status \<^verbatim>\<open>success\<close> if
  its upload and its insert returned no error, and otherwise status \<^verbatim>\<open>error\<close> with the
  message of the failing call, every other entry being untouched; the timer's callback
  then drops exactly the entries with status \<^verbatim>\<open>success\<close>, so the failed ones stay.  With no
  queued entry no request is sent and the one toast added is the info toast.
\<close>

theorem handleUploadAll_run:
  assumes "truthy (albumId st)" and "distinct (map uf_id (filesToUpload st))"
  shows "List.map_filter uploadedFile (addedCalls st (handleUploadAll be st))
           = map uf_file (filter (\<lambda>f. status f = Queued) (filesToUpload st))
       \<and> filesToUpload (handleUploadAll be st)
           = map (\<lambda>f. if status f = Queued then settled be f else f) (filesToUpload st)
       \<and> filesToUpload (uploadAllTimeout (handleUploadAll be st))
           = filter (\<lambda>f. status f \<noteq> Success)
               (map (\<lambda>f. if status f = Queued then settled be f else f) (filesToUpload st))
       \<and> (if filter (\<lambda>f. status f = Queued) (filesToUpload st) = []
          then addedCalls st (handleUploadAll be st) = []
             \<and> addedToasts st (handleUploadAll be st)
                 = [\<lparr>message = ''Tidak ada foto dalam antrean.'', ttype = TInfo\<rparr>]
          else timers (handleUploadAll be st) = Suc (timers st))"
proof -
  note E = handleUploadAll_effect [OF assms, of be]
  have 1: "List.map_filter uploadedFile (addedCalls st (handleUploadAll be st))
           = map uf_file (filter (\<lambda>f. status f = Queued) (filesToUpload st))"
    using E(2) by (simp add: addedCalls_def runCalls_uploaded)
  have 3: "filesToUpload (uploadAllTimeout (handleUploadAll be st))
           = filter (\<lambda>f. status f \<noteq> Success)
               (map (\<lambda>f. if status f = Queued then settled be f else f) (filesToUpload st))"
    using E(1) by (simp add: uploadAllTimeout_def)
  have 4: "(if filter (\<lambda>f. status f = Queued) (filesToUpload st) = []
          then addedCalls st (handleUploadAll be st) = []
             \<and> addedToasts st (handleUploadAll be st)
                 = [\<lparr>message = ''Tidak ada foto dalam antrean.'', ttype = TInfo\<rparr>]
          else timers (handleUploadAll be st) = Suc (timers st))"
  proof (cases "filter (\<lambda>f. status f = Queued) (filesToUpload st) = []")
    case True
    with assms(1) show ?thesis
      by (simp add: handleUploadAll_def addedCalls_def addedToasts_def addToast_def)
  next
    case False
    with E(3) show ?thesis by simp
  qed
  from 1 E(1) 3 4 show ?thesis by blast
qed

lemmas example_defs = examplePage_def exampleQueue_def exampleBackend_def initialPage_def
  pngFile_def textFile_def hugeFile_def

theorem handleFileSelect_enqueues_valid_files_witness:
  "map uf_file (filesToUpload (handleFileSelect (Some [textFile, pngFile, hugeFile]) (initialPage (Some ''a1''))))
     = [pngFile]
   \<and> toasts (handleFileSelect (Some [textFile, pngFile, hugeFile]) (initialPage (Some ''a1'')))
     = [\<lparr>message = ''File notes.txt bukan gambar.'', ttype = TError\<rparr>,
        \<lparr>message = ''File huge.png terlalu besar (> 5MB).'', ttype = TError\<rparr>]"
  using handleFileSelect_enqueues_valid_files [of "[textFile, pngFile, hugeFile]" "initialPage (Some ''a1'')"]
  by (auto simp: acceptable_def rejectionToast_def example_defs)

theorem handleUploadAll_run_witness:
  "filesToUpload (handleUploadAll exampleBackend examplePage)
     = [\<lparr>uf_id = 0, uf_file = pngFile, previewUrl = 0, status = Success, uf_error = None\<rparr>,
        \<lparr>uf_id = 1, uf_file = pngFile, previewUrl = 1, status = Error, uf_error = Some ''quota''\<rparr>,
        \<lparr>uf_id = 2, uf_file = pngFile, previewUrl = 2, status = Error, uf_error = Some ''timeout''\<rparr>]
   \<and> filesToUpload (uploadAllTimeout (handleUploadAll exampleBackend examplePage))
     = [\<lparr>uf_id = 1, uf_file = pngFile, previewUrl = 1, status = Error, uf_error = Some ''quota''\<rparr>,
        \<lparr>uf_id = 2, uf_file = pngFile, previewUrl = 2, status = Error, uf_error = Some ''timeout''\<rparr>]
   \<and> List.map_filter uploadedFile (addedCalls examplePage (handleUploadAll exampleBackend examplePage))
     = [pngFile, pngFile]"
  using handleUploadAll_run [of examplePage exampleBackend]
  by (simp add: example_defs truthy_def settled_def failure_def)

text \<open>
  An entry with status \<^verbatim>\<open>error\<close> is not picked up by a later run; its file is retried by
  selecting it again, which queues a new entry for it.
\<close>

lemma resubmission_enqueues:
  assumes "acceptable file"
  shows "\<exists>u. filesToUpload (handleFileSelect (Some [file]) st) = filesToUpload st @ [u]
             \<and> uf_file u = file \<and> status u = Queued"
  using assms
  by (simp add: handleFileSelect_def selectFile_def acceptable_def Let_def)

subsection \<open>Cover image\<close>

text \<open>
  C8.  \<^verbatim>\<open>handleSetCover\<close> sends one update of the album row.  When it returns no error, the
  local \<^verbatim>\<open>album\<close> state gets the chosen URL as \<^verbatim>\<open>cover_image_url\<close> (its other fields kept) and
  a success toast is added; when it returns an error, the local \<^verbatim>\<open>album\<close> state is unchanged
  and an error toast with the error's message is added.
\<close>

theorem handleSetCover_local_state:
  "album (handleSetCover photoUrl None st) = (album st)\<lparr>cover_image_url := Some photoUrl\<rparr>
   \<and> addedToasts st (handleSetCover photoUrl None st)
       = [\<lparr>message = ''Foto sampul berhasil diperbarui.'', ttype = TSuccess\<rparr>]
   \<and> album (handleSetCover photoUrl (Some e) st) = album st
   \<and> addedToasts st (handleSetCover photoUrl (Some e) st)
       = [\<lparr>message = ''Gagal mengatur foto sampul: '' @ e, ttype = TError\<rparr>]
   \<and> addedCalls st (handleSetCover photoUrl r st) = [(AlbumsUpdateCover (albumId st) (Some photoUrl), r)]"
  by (cases r) (simp_all add: handleSetCover_def effect_defs addedToasts_def addedCalls_def Let_def)

subsection \<open>Deleting a photo\<close>

lemma storagePath_example [simp]: "storagePath ''https://h/public/gallery/7-a.png'' = ''7-a.png''"
  by (simp add: storagePath_def split_def)

lemma storagePath_example2: "storagePath ''https://h/public/gallery/'' = []"
  by (simp add: storagePath_def split_def)

text \<open>
  C10.  When \<^verbatim>\<open>handleDeletePhoto\<close> has deleted a photo (confirmed, a non-empty storage path,
  storage removal and row deletion without error), it sends exactly one further request if
  the photo's \<^verbatim>\<open>image_url\<close> equals the album's \<^verbatim>\<open>cover_image_url\<close>: the update of the album row
  that sets \<^verbatim>\<open>cover_image_url\<close> to \<^verbatim>\<open>null\<close>.  Otherwise it sends no request to the albums table.
  In both cases the handler leaves the local \<^verbatim>\<open>album\<close> state as it was, adds the success toast
  and starts one refresh.
\<close>

theorem handleDeletePhoto_cover_reset:
  assumes "storagePath (image_url photo) \<noteq> []"
  shows "addedCalls st (handleDeletePhoto True photo None None coverError st)
           = [(StorageRemove [storagePath (image_url photo)], None), (PhotosDelete (photo_id photo), None)]
             @ (if cover_image_url (album st) = Some (image_url photo)
                then [(AlbumsUpdateCover (album_id (album st)) None, coverError)] else [])
       \<and> album (handleDeletePhoto True photo None None coverError st) = album st
       \<and> addedToasts st (handleDeletePhoto True photo None None coverError st)
           = [\<lparr>message = ''Foto berhasil dihapus.'', ttype = TSuccess\<rparr>]
       \<and> refreshes (handleDeletePhoto True photo None None coverError st) = Suc (refreshes st)"
  using assms
  by (simp add: handleDeletePhoto_def effect_defs addedToasts_def addedCalls_def Let_def)

theorem handleDeletePhoto_cover_reset_witness:
  "addedCalls coverPage (handleDeletePhoto True examplePhoto None None None coverPage)
     = [(StorageRemove [''7-a.png''], None), (PhotosDelete ''p1'', None),
        (AlbumsUpdateCover (Some ''a1'') None, None)]
   \<and> addedCalls (initialPage (Some ''a1'')) (handleDeletePhoto True examplePhoto None None None (initialPage (Some ''a1'')))
     = [(StorageRemove [''7-a.png''], None), (PhotosDelete ''p1'', None)]"
  using handleDeletePhoto_cover_reset [of examplePhoto coverPage None]
        handleDeletePhoto_cover_reset [of examplePhoto "initialPage (Some ''a1'')" None]
  by (simp add: examplePhoto_def coverPage_def initialPage_def)

subsection \<open>Deleting an album\<close>

lemma handleDelete_calls:
  "addedCalls st (handleDelete True aid t \<lparr>data = d, error = None\<rparr> sErr dbErr st)
     = [(PhotosSelectUrls aid, None)]
       @ (if filter (\<lambda>p. p \<noteq> []) (map storagePath (case d of None \<Rightarrow> [] | Some photos \<Rightarrow> photos)) = [] then []
          else [(StorageRemove (filter (\<lambda>p. p \<noteq> []) (map storagePath (case d of None \<Rightarrow> [] | Some photos \<Rightarrow> photos))), sErr)])
       @ [(AlbumsDelete aid, dbErr)]"
  "addedCalls st (handleDelete True aid t \<lparr>data = d, error = Some e\<rparr> sErr dbErr st)
     = [(PhotosSelectUrls aid, Some e)]"
  "addedCalls st (handleDelete False aid t resp sErr dbErr st) = []"
  by (auto simp: handleDelete_def filePathsOf_def effect_defs addedCalls_def Let_def
           split: option.splits)

text \<open>
  C7.  Once the admin has confirmed and the photo list was fetched without error,
  \<^verbatim>\<open>handleDelete\<close> asks the storage to remove the non-empty paths taken from the photos'
  image URLs (the text after the last \<^verbatim>\<open>/gallery/\<close>), in one request and only if there is
  such a path, and then deletes the album row.  It never sends a deletion of photo rows.
  When the fetch fails the select is the only request; without confirmation there is none.
\<close>

theorem handleDelete_removes_files_then_album:
  "addedCalls st (handleDelete True aid t \<lparr>data = Some photos, error = None\<rparr> sErr dbErr st)
     = [(PhotosSelectUrls aid, None)]
       @ (if filter (\<lambda>p. p \<noteq> []) (map storagePath photos) = [] then []
          else [(StorageRemove (filter (\<lambda>p. p \<noteq> []) (map storagePath photos)), sErr)])
       @ [(AlbumsDelete aid, dbErr)]
   \<and> addedCalls st (handleDelete True aid t \<lparr>data = None, error = None\<rparr> sErr dbErr st)
     = [(PhotosSelectUrls aid, None), (AlbumsDelete aid, dbErr)]
   \<and> addedCalls st (handleDelete True aid t \<lparr>data = d, error = Some e\<rparr> sErr dbErr st)
     = [(PhotosSelectUrls aid, Some e)]
   \<and> addedCalls st (handleDelete False aid t resp sErr dbErr st) = []
   \<and> (PhotosDelete pid, r) \<notin> set (addedCalls st (handleDelete c aid t resp sErr dbErr st))"
proof -
  have "(PhotosDelete pid, r) \<notin> set (addedCalls st (handleDelete c aid t resp sErr dbErr st))"
  proof (cases resp)
    case (fields d e)
    then show ?thesis
      by (cases c; cases e) (simp_all add: handleDelete_calls)
  qed
  then show ?thesis
    by (simp add: handleDelete_calls)
qed

theorem handleDelete_removes_files_then_album_witness:
  "addedCalls (initialPage None)
     (handleDelete True ''a1'' ''Trip''
        \<lparr>data = Some [''https://h/public/gallery/7-a.png'', ''https://h/public/gallery/''], error = None\<rparr>
        None None (initialPage None))
     = [(PhotosSelectUrls ''a1'', None), (StorageRemove [''7-a.png''], None), (AlbumsDelete ''a1'', None)]"
  using handleDelete_removes_files_then_album
     [of "initialPage None" "''a1''" "''Trip''" "[''https://h/public/gallery/7-a.png'', ''https://h/public/gallery/'']" None None]
  by (simp add: storagePath_example2)

subsection \<open>Toasts and backend errors\<close>

lemma fold_call_captions:
  "calls (fold (\<lambda>(photoId, cap). call (PhotosUpdateCaption photoId cap) (cE photoId)) caps st)
     = calls st @ map (\<lambda>(photoId, cap). (PhotosUpdateCaption photoId cap, cE photoId)) caps
   \<and> toasts (fold (\<lambda>(photoId, cap). call (PhotosUpdateCaption photoId cap) (cE photoId)) caps st) = toasts st"
  by (induction caps arbitrary: st) (auto simp: call_def)

lemma fold_call_uploads:
  "calls (fold (\<lambda>(i, file). call (StorageUpload (now i, replaceSpaces (file_name file)) file) (upErr i)) xs st)
     = calls st @ map (\<lambda>(i, file). (StorageUpload (now i, replaceSpaces (file_name file)) file, upErr i)) xs
   \<and> toasts (fold (\<lambda>(i, file). call (StorageUpload (now i, replaceSpaces (file_name file)) file) (upErr i)) xs st) = toasts st"
  by (induction xs arbitrary: st) (auto simp: call_def)

lemma simple_contracts:
  "toastContract (addedCalls st (handleLogin email password r st)) (addedToasts st (handleLogin email password r st))"
  "toastContract (addedCalls st (handleLogout r st)) (addedToasts st (handleLogout r st))"
  "toastContract (addedCalls st (handleSetCover url r st)) (addedToasts st (handleSetCover url r st))"
  by (cases r; simp add: toastContract_def handleLogin_def handleLogout_def handleSetCover_def
        effect_defs addedToasts_def addedCalls_def Let_def)+

lemma caption_answers:
  "list_all (\<lambda>c. snd c = None) (map (\<lambda>(photoId, cap). (PhotosUpdateCaption photoId cap, cE photoId)) caps)
     = (\<not> list_ex (\<lambda>(photoId, cap). cE photoId \<noteq> None) caps)"
  "list_ex (\<lambda>c. snd c \<noteq> None) (map (\<lambda>(photoId, cap). (PhotosUpdateCaption photoId cap, cE photoId)) caps)
     = list_ex (\<lambda>(photoId, cap). cE photoId \<noteq> None) caps"
  by (induction caps) auto

lemma handleAlbumSave_contract:
  "truthy (title (album st)) \<Longrightarrow>
   toastContract (addedCalls st (handleAlbumSave caps created aE cE st))
                 (addedToasts st (handleAlbumSave caps created aE cE st))"
  "\<not> truthy (title (album st)) \<Longrightarrow>
   addedCalls st (handleAlbumSave caps created aE cE st) = [] \<and>
   addedToasts st (handleAlbumSave caps created aE cE st)
     = [\<lparr>message = ''Judul album tidak boleh kosong.'', ttype = TError\<rparr>]"
  by (auto simp del: not_None_eq
        simp: toastContract_def handleAlbumSave_def effect_defs addedToasts_def addedCalls_def
        Let_def fold_call_captions caption_answers split: sum.splits)

lemma handleDelete_toasts:
  "list_ex (\<lambda>t. ttype t = TError) (addedToasts st (handleDelete True aid ttl resp sE dE st))
     = list_ex (\<lambda>c. snd c \<noteq> None) (addedCalls st (handleDelete True aid ttl resp sE dE st))"
  "list_ex (\<lambda>t. ttype t = TSuccess) (addedToasts st (handleDelete True aid ttl resp sE dE st))
     = list_all (\<lambda>c. snd c = None)
         (filter (\<lambda>c. \<not> isStorageRemove c) (addedCalls st (handleDelete True aid ttl resp sE dE st)))"
  "addedToasts st (handleDelete False aid ttl resp sE dE st) = []"
  "addedCalls st (handleDelete False aid ttl resp sE dE st) = []"
  by (auto simp: handleDelete_def effect_defs addedToasts_def addedCalls_def Let_def
           split: option.splits)

lemma handleDeletePhoto_toasts:
  "storagePath (image_url photo) \<noteq> [] \<Longrightarrow>
   toastContract (filter (\<lambda>c. \<not> isCoverReset c) (addedCalls st (handleDeletePhoto True photo sE dE cE st)))
                 (addedToasts st (handleDeletePhoto True photo sE dE cE st))"
  "storagePath (image_url photo) = [] \<Longrightarrow>
   addedCalls st (handleDeletePhoto True photo sE dE cE st) = [] \<and>
   addedToasts st (handleDeletePhoto True photo sE dE cE st)
     = [\<lparr>message = ''URL foto tidak valid.'', ttype = TError\<rparr>]"
  "addedCalls st (handleDeletePhoto False photo sE dE cE st) = [] \<and>
   addedToasts st (handleDeletePhoto False photo sE dE cE st) = []"
  by (auto simp: toastContract_def handleDeletePhoto_def effect_defs addedToasts_def addedCalls_def Let_def
           split: option.splits)

text \<open>
  C6, as stated, fails: with the photo list fetched, the storage removal refused and the
  album row deleted, \<^verbatim>\<open>handleDelete\<close> adds the error toast for the storage and then the
  success toast for the album, so a success toast is added although a backend call
  returned an error.
\<close>

theorem delete_album_contract_counterexample:
  "\<not> toastContract
       (addedCalls (initialPage None)
          (handleDelete True ''a1'' ''Trip'' \<lparr>data = Some [''https://h/public/gallery/7-a.png''], error = None\<rparr>
             (Some ''denied'') None (initialPage None)))
       (addedToasts (initialPage None)
          (handleDelete True ''a1'' ''Trip'' \<lparr>data = Some [''https://h/public/gallery/7-a.png''], error = None\<rparr>
             (Some ''denied'') None (initialPage None)))"
  by (simp add: toastContract_def handleDelete_def filePathsOf_def effect_defs addedToasts_def
        addedCalls_def initialPage_def Let_def)

text \<open>
  C6, amended.  Login, logout, set cover, and album create or update with a non-empty
  title add a success toast exactly when all their backend calls return without error and
  an error toast exactly when one returns an error.  Album save with an empty title sends
  nothing and adds one error toast.  Delete album, once confirmed, adds an error toast
  exactly when one of its calls returns an error, and a success toast exactly when its
  calls other than the storage removal return without error.  Delete photo, once confirmed
  and with a non-empty storage path, keeps the contract for its calls other than the
  reset of the cover, whose answer is not inspected; with an empty storage path it sends
  nothing and adds one error toast.  A declined confirmation sends nothing and adds no
  toast.  (The toasts are those the handler adds itself, not those of the refresh it starts.)
\<close>

theorem admin_toast_contract:
  "toastContract (addedCalls st (handleLogin email password r st))
                 (addedToasts st (handleLogin email password r st))
   \<and> toastContract (addedCalls st (handleLogout r st)) (addedToasts st (handleLogout r st))
   \<and> toastContract (addedCalls st (handleSetCover url r st)) (addedToasts st (handleSetCover url r st))
   \<and> (if truthy (title (album st))
       then toastContract (addedCalls st (handleAlbumSave caps created aE cE st))
                          (addedToasts st (handleAlbumSave caps created aE cE st))
       else addedCalls st (handleAlbumSave caps created aE cE st) = []
          \<and> addedToasts st (handleAlbumSave caps created aE cE st)
              = [\<lparr>message = ''Judul album tidak boleh kosong.'', ttype = TError\<rparr>])
   \<and> list_ex (\<lambda>t. ttype t = TError) (addedToasts st (handleDelete True aid ttl resp sE dE st))
       = list_ex (\<lambda>c. snd c \<noteq> None) (addedCalls st (handleDelete True aid ttl resp sE dE st))
   \<and> list_ex (\<lambda>t. ttype t = TSuccess) (addedToasts st (handleDelete True aid ttl resp sE dE st))
       = list_all (\<lambda>c. snd c = None)
           (filter (\<lambda>c. \<not> isStorageRemove c) (addedCalls st (handleDelete True aid ttl resp sE dE st)))
   \<and> addedCalls st (handleDelete False aid ttl resp sE dE st) = []
   \<and> addedToasts st (handleDelete False aid ttl resp sE dE st) = []
   \<and> (if storagePath (image_url photo) \<noteq> []
       then toastContract
              (filter (\<lambda>c. \<not> isCoverReset c) (addedCalls st (handleDeletePhoto True photo sE dE cvE st)))
              (addedToasts st (handleDeletePhoto True photo sE dE cvE st))
       else addedCalls st (handleDeletePhoto True photo sE dE cvE st) = []
          \<and> addedToasts st (handleDeletePhoto True photo sE dE cvE st)
              = [\<lparr>message = ''URL foto tidak valid.'', ttype = TError\<rparr>])
   \<and> addedCalls st (handleDeletePhoto False photo sE dE cvE st) = []
   \<and> addedToasts st (handleDeletePhoto False photo sE dE cvE st) = []"
proof -
  have save: "(if truthy (title (album st))
       then toastContract (addedCalls st (handleAlbumSave caps created aE cE st))
                          (addedToasts st (handleAlbumSave caps created aE cE st))
       else addedCalls st (handleAlbumSave caps created aE cE st) = []
          \<and> addedToasts st (handleAlbumSave caps created aE cE st)
              = [\<lparr>message = ''Judul album tidak boleh kosong.'', ttype = TError\<rparr>])"
    using handleAlbumSave_contract [of st caps created aE cE] by simp
  have photo: "(if storagePath (image_url photo) \<noteq> []
       then toastContract
              (filter (\<lambda>c. \<not> isCoverReset c) (addedCalls st (handleDeletePhoto True photo sE dE cvE st)))
              (addedToasts st (handleDeletePhoto True photo sE dE cvE st))
       else addedCalls st (handleDeletePhoto True photo sE dE cvE st) = []
          \<and> addedToasts st (handleDeletePhoto True photo sE dE cvE st)
              = [\<lparr>message = ''URL foto tidak valid.'', ttype = TError\<rparr>])"
    using handleDeletePhoto_toasts(1,2) [of photo st sE dE cvE] by simp
  from save photo show ?thesis
    using simple_contracts [of st] handleDelete_toasts [of st aid ttl resp sE dE]
      handleDeletePhoto_toasts(3) [of st photo sE dE cvE]
    by blast
qed

theorem admin_toast_contract_witness:
  "toastContract
     (addedCalls coverPage (handleAlbumSave [(''p1'', ''sea'')] (Inr ''a2'') None (\<lambda>p. Some ''locked'') coverPage))
     (addedToasts coverPage (handleAlbumSave [(''p1'', ''sea'')] (Inr ''a2'') None (\<lambda>p. Some ''locked'') coverPage))
   \<and> addedToasts coverPage (handleAlbumSave [(''p1'', ''sea'')] (Inr ''a2'') None (\<lambda>p. Some ''locked'') coverPage)
       = [\<lparr>message = ''Gagal menyimpan perubahan.'', ttype = TError\<rparr>]
   \<and> toastContract
       (filter (\<lambda>c. \<not> isCoverReset c)
          (addedCalls coverPage (handleDeletePhoto True examplePhoto None None (Some ''offline'') coverPage)))
       (addedToasts coverPage (handleDeletePhoto True examplePhoto None None (Some ''offline'') coverPage))"
  using admin_toast_contract [of coverPage _ _ _ _ "[(''p1'', ''sea'')]" "Inr ''a2''" None "\<lambda>p. Some ''locked''"
                                 _ _ _ None None examplePhoto "Some ''offline''"]
  by (simp add: coverPage_def initialPage_def examplePhoto_def truthy_def handleAlbumSave_def
        effect_defs addedToasts_def Let_def)

subsection \<open>Backend calls per operation\<close>

lemma handleFileUpload_calls:
  assumes "truthy (albumId st)" and "fs \<noteq> []"
  shows "length (filter isStorageUpload (addedCalls st (handleFileUpload (Some fs) now upErr order pub iE st))) = length fs"
    and "length (filter isPhotosInsert (addedCalls st (handleFileUpload (Some fs) now upErr order pub iE st)))
           = (if list_all (\<lambda>i. upErr i = None) [0..<length fs] then 1 else 0)"
proof -
  have up: "filter isStorageUpload (map (\<lambda>(i, file). (StorageUpload (now i, replaceSpaces (file_name file)) file, upErr i)) xs)
          = map (\<lambda>(i, file). (StorageUpload (now i, replaceSpaces (file_name file)) file, upErr i)) xs" for xs
    by (induction xs) auto
  have ins: "filter isPhotosInsert (map (\<lambda>(i, file). (StorageUpload (now i, replaceSpaces (file_name file)) file, upErr i)) xs)
          = []" for xs
    by (induction xs) auto
  have fnd: "(filter (\<lambda>i. i < length fs \<and> upErr i \<noteq> None) (order @ [0..<length fs]) = [])
               = list_all (\<lambda>i. upErr i = None) [0..<length fs]"
    by (auto simp: filter_empty_conv list_all_iff)
  show "length (filter isStorageUpload (addedCalls st (handleFileUpload (Some fs) now upErr order pub iE st))) = length fs"
    using assms
    by (auto simp: handleFileUpload_def Let_def addedCalls_def effect_defs fold_call_uploads up
             split: option.splits list.splits)
  show "length (filter isPhotosInsert (addedCalls st (handleFileUpload (Some fs) now upErr order pub iE st)))
           = (if list_all (\<lambda>i. upErr i = None) [0..<length fs] then 1 else 0)"
    using assms fnd
    by (auto simp: handleFileUpload_def Let_def addedCalls_def effect_defs fold_call_uploads ins
             split: option.splits list.splits)
qed

lemma runCalls_counts:
  "length (filter isStorageUpload (runCalls be aid n us)) = length us"
  "length (filter isPhotosInsert (runCalls be aid n us))
     = length (filter (\<lambda>u. uploadError be (uf_id u) = None) us)"
  by (induction us arbitrary: n; simp add: uploadCalls_def split: option.splits)+


lemma handleUploadAll_calls:
  assumes a: "truthy (albumId st)"
  shows "addedCalls st (handleUploadAll be st)
           = runCalls be (the (albumId st)) (nextUuid st) (filter (\<lambda>f. status f = Queued) (filesToUpload st))"
proof (cases "filter (\<lambda>f. status f = Queued) (filesToUpload st) = []")
  case True
  with a show ?thesis by (simp add: handleUploadAll_def addToast_def addedCalls_def)
next
  case False
  obtain sc ec st2 where loop:
    "uploadLoop be (the (albumId st)) (filter (\<lambda>f. status f = Queued) (filesToUpload st)) (0, 0, markUploading st)
       = (sc, ec, st2)"
    by (cases "uploadLoop be (the (albumId st)) (filter (\<lambda>f. status f = Queued) (filesToUpload st)) (0, 0, markUploading st)")
  from uploadLoop_effect [OF loop] False a loop show ?thesis
    by (simp add: handleUploadAll_def Let_def effect_defs markUploading_def addedCalls_def)
qed

lemma handleDelete_call_count:
  "length (addedCalls st (handleDelete True aid ttl \<lparr>data = d, error = None\<rparr> sE dE st))
     = (if filePathsOf (case d of None \<Rightarrow> [] | Some photos \<Rightarrow> photos) = [] then 2 else 3)"
  "length (filter isAlbumsDelete (addedCalls st (handleDelete True aid ttl \<lparr>data = d, error = None\<rparr> sE dE st))) = 1"
  by (simp_all add: handleDelete_calls filePathsOf_def)

text \<open>
  C5, amended.  Sign-in takes exactly one backend call, album create (non-empty title, no
  \<^verbatim>\<open>albumId\<close>) exactly one, and the total-photo count exactly one, sent next to the RPC that
  lists the albums.  Album delete, once confirmed and with the photo list fetched, takes two
  or three calls: the select of the photo URLs, one storage removal if there is a path to
  remove, and exactly one delete of the album row.  Photo upload by \<^verbatim>\<open>handleUploadAll\<close> takes
  one storage upload per queued photo and one insert per photo whose upload succeeded;
  by \<^verbatim>\<open>handleFileUpload\<close> one storage upload per file and one insert for all of them if
  every upload succeeded.
\<close>

theorem backend_calls_per_operation:
  "addedCalls st (handleLogin email password r st) = [(SignInWithPassword email password, r)]
   \<and> (truthy (title (album st)) \<and> \<not> truthy (albumId st) \<longrightarrow>
        addedCalls st (handleAlbumSave caps created aE cE st)
          = [(AlbumsInsert (title (album st)) (description (album st)),
              case created of Inl e \<Rightarrow> Some e | Inr newId \<Rightarrow> None)])
   \<and> addedCalls st (fetchAlbumsAndStats albumsResult countResult st)
        = [(RpcAlbumsWithPhotoCount, error albumsResult), (PhotosCount, error countResult)]
   \<and> length (addedCalls st (handleDelete True aid ttl \<lparr>data = d, error = None\<rparr> sE dE st))
        = (if filePathsOf (case d of None \<Rightarrow> [] | Some photos \<Rightarrow> photos) = [] then 2 else 3)
   \<and> length (filter isAlbumsDelete
               (addedCalls st (handleDelete True aid ttl \<lparr>data = d, error = None\<rparr> sE dE st))) = 1
   \<and> (truthy (albumId st) \<longrightarrow>
        length (filter isStorageUpload (addedCalls st (handleUploadAll be st)))
          = length (filter (\<lambda>f. status f = Queued) (filesToUpload st))
      \<and> length (filter isPhotosInsert (addedCalls st (handleUploadAll be st)))
          = length (filter (\<lambda>f. uploadError be (uf_id f) = None)
                      (filter (\<lambda>f. status f = Queued) (filesToUpload st)))
      \<and> length (addedCalls st (handleUploadAll be st))
          = length (filter (\<lambda>f. status f = Queued) (filesToUpload st))
            + length (filter (\<lambda>f. uploadError be (uf_id f) = None)
                        (filter (\<lambda>f. status f = Queued) (filesToUpload st))))
   \<and> (truthy (albumId st) \<and> fs \<noteq> [] \<longrightarrow>
        length (filter isStorageUpload (addedCalls st (handleFileUpload (Some fs) now upErr order pub iE st)))
          = length fs
      \<and> length (filter isPhotosInsert (addedCalls st (handleFileUpload (Some fs) now upErr order pub iE st)))
          = (if list_all (\<lambda>i. upErr i = None) [0..<length fs] then 1 else 0))"
proof -
  have login: "addedCalls st (handleLogin email password r st) = [(SignInWithPassword email password, r)]"
    by (cases r) (simp_all add: handleLogin_def effect_defs addedCalls_def)
  have create: "truthy (title (album st)) \<and> \<not> truthy (albumId st) \<longrightarrow>
        addedCalls st (handleAlbumSave caps created aE cE st)
          = [(AlbumsInsert (title (album st)) (description (album st)),
              case created of Inl e \<Rightarrow> Some e | Inr newId \<Rightarrow> None)]"
    by (cases created) (simp_all add: handleAlbumSave_def effect_defs addedCalls_def)
  have count: "addedCalls st (fetchAlbumsAndStats albumsResult countResult st)
        = [(RpcAlbumsWithPhotoCount, error albumsResult), (PhotosCount, error countResult)]"
    by (simp add: fetchAlbumsAndStats_def effect_defs addedCalls_def Let_def split: option.splits)
  have total: "length (runCalls be aid n us)
                 = length us + length (filter (\<lambda>u. uploadError be (uf_id u) = None) us)" for aid n us
    by (induction us arbitrary: n) (simp_all add: uploadCalls_def split: option.splits)
  have upload: "truthy (albumId st) \<longrightarrow>
        length (filter isStorageUpload (addedCalls st (handleUploadAll be st)))
          = length (filter (\<lambda>f. status f = Queued) (filesToUpload st))
      \<and> length (filter isPhotosInsert (addedCalls st (handleUploadAll be st)))
          = length (filter (\<lambda>f. uploadError be (uf_id f) = None)
                      (filter (\<lambda>f. status f = Queued) (filesToUpload st)))
      \<and> length (addedCalls st (handleUploadAll be st))
          = length (filter (\<lambda>f. status f = Queued) (filesToUpload st))
            + length (filter (\<lambda>f. uploadError be (uf_id f) = None)
                        (filter (\<lambda>f. status f = Queued) (filesToUpload st)))"
  proof
    assume a: "truthy (albumId st)"
    show "length (filter isStorageUpload (addedCalls st (handleUploadAll be st)))
          = length (filter (\<lambda>f. status f = Queued) (filesToUpload st))
      \<and> length (filter isPhotosInsert (addedCalls st (handleUploadAll be st)))
          = length (filter (\<lambda>f. uploadError be (uf_id f) = None)
                      (filter (\<lambda>f. status f = Queued) (filesToUpload st)))
      \<and> length (addedCalls st (handleUploadAll be st))
          = length (filter (\<lambda>f. status f = Queued) (filesToUpload st))
            + length (filter (\<lambda>f. uploadError be (uf_id f) = None)
                        (filter (\<lambda>f. status f = Queued) (filesToUpload st)))"
      unfolding handleUploadAll_calls [OF a] runCalls_counts total by simp
  qed
  have old: "truthy (albumId st) \<and> fs \<noteq> [] \<longrightarrow>
        length (filter isStorageUpload (addedCalls st (handleFileUpload (Some fs) now upErr order pub iE st)))
          = length fs
      \<and> length (filter isPhotosInsert (addedCalls st (handleFileUpload (Some fs) now upErr order pub iE st)))
          = (if list_all (\<lambda>i. upErr i = None) [0..<length fs] then 1 else 0)"
    using handleFileUpload_calls [of st fs now upErr order pub iE] by blast
  from login create count upload old handleDelete_call_count [of st aid ttl d sE dE]
  show ?thesis by blast
qed

theorem backend_calls_per_operation_witness:
  "length (filter isStorageUpload (addedCalls examplePage (handleUploadAll exampleBackend examplePage))) = 2
   \<and> length (filter isPhotosInsert (addedCalls examplePage (handleUploadAll exampleBackend examplePage))) = 1
   \<and> length (addedCalls examplePage (handleUploadAll exampleBackend examplePage)) = 3
   \<and> length (filter isStorageUpload
        (addedCalls examplePage (handleFileUpload (Some [pngFile, pngFile]) (\<lambda>i. 1700000000000) (\<lambda>i. None) [1, 0] snd None examplePage))) = 2
   \<and> length (filter isPhotosInsert
        (addedCalls examplePage (handleFileUpload (Some [pngFile, pngFile]) (\<lambda>i. 1700000000000) (\<lambda>i. None) [1, 0] snd None examplePage))) = 1"
  using backend_calls_per_operation [of examplePage _ _ _ _ _ _ _ _ _ _ _ _ _ _ exampleBackend
      "[pngFile, pngFile]" "\<lambda>i. 1700000000000" "\<lambda>i. None" "[1, 0]" snd None]
  by (simp add: example_defs truthy_def)

text \<open>
  C5, as stated, fails: deleting an album that holds one photo sends three requests, not one.
\<close>

theorem album_delete_calls_counterexample:
  "length (addedCalls (initialPage None)
     (handleDelete True ''a1'' ''Trip'' \<lparr>data = Some [''https://h/public/gallery/7-a.png''], error = None\<rparr>
        None None (initialPage None))) \<noteq> 1"
  by (simp add: handleDelete_def filePathsOf_def effect_defs addedCalls_def initialPage_def Let_def)

subsection \<open>The queue machine: invariant and status changes\<close>

lemma mapFiles_ids:
  "mapFiles files st = (rs, st') \<Longrightarrow>
     nextUuid st \<le> nextUuid st'
   \<and> (\<forall>u \<in> set (map the (filter (\<lambda>f. f \<noteq> None) rs)). nextUuid st \<le> uf_id u \<and> uf_id u < nextUuid st')
   \<and> distinct (map uf_id (map the (filter (\<lambda>f. f \<noteq> None) rs)))"
proof (induction files arbitrary: st rs st')
  case Nil
  then show ?case by simp
next
  case (Cons f fs)
  obtain r st1 where one: "selectFile f st = (r, st1)" by (cases "selectFile f st")
  obtain rs' st2 where rest: "mapFiles fs st1 = (rs', st2)" by (cases "mapFiles fs st1")
  from Cons.prems one rest have eq: "rs = r # rs'" "st' = st2" by simp_all
  note IH = Cons.IH [OF rest]
  show ?case
  proof (cases r)
    case None
    with one have "nextUuid st1 = nextUuid st"
      by (auto simp: selectFile_def addToast_def split: if_splits)
    with IH None eq show ?thesis by simp
  next
    case (Some u)
    with one have "nextUuid st1 = Suc (nextUuid st)" "uf_id u = nextUuid st"
      by (auto simp: selectFile_def addToast_def split: if_splits)
    with IH Some eq show ?thesis by fastforce
  qed
qed

lemma find_by_id:
  "distinct (map uf_id q) \<Longrightarrow> f \<in> set q \<Longrightarrow> find (\<lambda>g. uf_id g = uf_id f) q = Some f"
  by (induction q) auto

lemma find_fresh:
  "\<forall>g \<in> set q. uf_id g \<noteq> i \<Longrightarrow> find (\<lambda>g. uf_id g = i) q = None"
  by (simp add: find_None_iff)

lemma handleFileSelect_queue:
  "\<exists>newFiles. filesToUpload (handleFileSelect sel st) = filesToUpload st @ newFiles
     \<and> nextUuid st \<le> nextUuid (handleFileSelect sel st)
     \<and> (\<forall>u \<in> set newFiles. nextUuid st \<le> uf_id u \<and> uf_id u < nextUuid (handleFileSelect sel st) \<and> status u = Queued)
     \<and> distinct (map uf_id newFiles)"
proof (cases sel)
  case None
  then show ?thesis by (simp add: handleFileSelect_def)
next
  case (Some files)
  obtain rs st1 where m: "mapFiles files st = (rs, st1)" by (cases "mapFiles files st")
  from mapFiles_ids [OF m] mapFiles_result [OF m] m Some show ?thesis
    by (auto simp: handleFileSelect_def Let_def list_all_iff)
qed


lemma queueInv_iff:
  "queueInv (st, pending) =
     (distinct (map uf_id (filesToUpload st))
    \<and> (\<forall>f \<in> set (filesToUpload st). uf_id f < nextUuid st)
    \<and> (\<forall>u \<in> set pending. uf_id u < nextUuid st)
    \<and> distinct (map uf_id pending)
    \<and> (\<forall>u \<in> set pending. \<forall>f \<in> set (filesToUpload st). uf_id f = uf_id u \<longrightarrow> status f = Uploading))"
  by (auto simp: queueInv_def list_all_iff)

lemma queueInv_select:
  assumes "queueInv (st, pending)"
  shows "queueInv (handleFileSelect sel st, pending)"
proof -
  obtain newFiles where n:
    "filesToUpload (handleFileSelect sel st) = filesToUpload st @ newFiles"
    "nextUuid st \<le> nextUuid (handleFileSelect sel st)"
    "\<forall>u \<in> set newFiles. nextUuid st \<le> uf_id u \<and> uf_id u < nextUuid (handleFileSelect sel st) \<and> status u = Queued"
    "distinct (map uf_id newFiles)"
    using handleFileSelect_queue [of sel st] by blast
  from assms n show ?thesis
    unfolding queueInv_iff by (fastforce simp: image_iff)
qed

lemma queueInv_remove:
  assumes "queueInv (st, pending)"
  shows "queueInv (removeFileFromQueue i st, pending)"
proof -
  have q: "filesToUpload (removeFileFromQueue i st) = filter (\<lambda>f. uf_id f \<noteq> i) (filesToUpload st)"
    and n: "nextUuid (removeFileFromQueue i st) = nextUuid st"
    by (simp_all add: removeFileFromQueue_def Let_def revokeObjectURL_def split: option.splits)
  from assms show ?thesis
    unfolding queueInv_iff q n by (auto simp: distinct_map_filter)
qed

lemma queueInv_timeout:
  assumes "queueInv (st, pending)"
  shows "queueInv (uploadAllTimeout st, pending)"
  using assms unfolding queueInv_iff
  by (auto simp: uploadAllTimeout_def distinct_map_filter)

lemma uf_id_update [simp]:
  "uf_id \<circ> (\<lambda>f. if P f then f\<lparr>status := x\<rparr> else f) = uf_id"
  "uf_id \<circ> (\<lambda>f. if P f then f\<lparr>status := x, uf_error := y\<rparr> else f) = uf_id"
  by (auto simp: fun_eq_iff)

lemma queueInv_start:
  assumes inv: "queueInv (st, pending)"
  shows "queueInv (markUploading st, pending @ filter (\<lambda>f. status f = Queued) (filesToUpload st))"
proof -
  from inv have d: "distinct (map uf_id (filesToUpload st))"
    and lt: "\<forall>f \<in> set (filesToUpload st). uf_id f < nextUuid st"
    and plt: "\<forall>u \<in> set pending. uf_id u < nextUuid st"
    and pd: "distinct (map uf_id pending)"
    and up: "\<forall>u \<in> set pending. \<forall>f \<in> set (filesToUpload st). uf_id f = uf_id u \<longrightarrow> status f = Uploading"
    unfolding queueInv_iff by blast+
  have same: "\<And>f g. f \<in> set (filesToUpload st) \<Longrightarrow> g \<in> set (filesToUpload st) \<Longrightarrow> uf_id f = uf_id g \<Longrightarrow> f = g"
    using d by (meson distinct_map inj_onD)
  have disj: "uf_id ` set pending \<inter> uf_id ` set (filter (\<lambda>f. status f = Queued) (filesToUpload st)) = {}"
    using up by force
  have pd': "distinct (map uf_id (pending @ filter (\<lambda>f. status f = Queued) (filesToUpload st)))"
    using pd d disj by (simp add: distinct_map_filter)
  show ?thesis
    unfolding queueInv_iff
  proof (intro conjI)
    show "distinct (map uf_id (filesToUpload (markUploading st)))"
      using d by (simp add: markUploading_def)
    show "\<forall>f\<in>set (filesToUpload (markUploading st)). uf_id f < nextUuid (markUploading st)"
      using lt by (auto simp: markUploading_def)
    show "\<forall>u\<in>set (pending @ filter (\<lambda>f. status f = Queued) (filesToUpload st)). uf_id u < nextUuid (markUploading st)"
      using lt plt by (auto simp: markUploading_def)
    show "distinct (map uf_id (pending @ filter (\<lambda>f. status f = Queued) (filesToUpload st)))"
      by (rule pd')
    show "\<forall>u\<in>set (pending @ filter (\<lambda>f. status f = Queued) (filesToUpload st)).
            \<forall>f\<in>set (filesToUpload (markUploading st)). uf_id f = uf_id u \<longrightarrow> status f = Uploading"
    proof (intro ballI impI)
      fix u f
      assume u: "u \<in> set (pending @ filter (\<lambda>f. status f = Queued) (filesToUpload st))"
        and f: "f \<in> set (filesToUpload (markUploading st))" and e: "uf_id f = uf_id u"
      from f obtain g where g: "g \<in> set (filesToUpload st)"
        "f = (if status g = Queued then g\<lparr>status := Uploading\<rparr> else g)"
        by (auto simp: markUploading_def)
      then have gid: "uf_id g = uf_id u" using e by (auto split: if_splits)
      show "status f = Uploading"
      proof (cases "u \<in> set pending")
        case True
        with up g gid have "status g = Uploading" by blast
        with g show ?thesis by simp
      next
        case False
        with u have "u \<in> set (filesToUpload st)" "status u = Queued" by auto
        with same g gid have "g = u" by blast
        with g \<open>status u = Queued\<close> show ?thesis by simp
      qed
    qed
  qed
qed

lemma queueInv_settled:
  assumes inv: "queueInv (st, u # pending)"
  shows "queueInv (markSuccess (uf_id u) st, pending)" and "queueInv (markError (uf_id u) e st, pending)"
proof -
  from inv have d: "distinct (map uf_id (filesToUpload st))"
    and lt: "\<forall>f \<in> set (filesToUpload st). uf_id f < nextUuid st"
    and plt: "\<forall>v \<in> set pending. uf_id v < nextUuid st"
    and pd: "distinct (map uf_id pending)" and fresh: "uf_id u \<notin> uf_id ` set pending"
    and up: "\<forall>v \<in> set pending. \<forall>f \<in> set (filesToUpload st). uf_id f = uf_id v \<longrightarrow> status f = Uploading"
    unfolding queueInv_iff by auto
  show "queueInv (markSuccess (uf_id u) st, pending)"
    unfolding queueInv_iff using d lt plt pd fresh up
    by (auto simp: markSuccess_def)
  show "queueInv (markError (uf_id u) e st, pending)"
    unfolding queueInv_iff using d lt plt pd fresh up
    by (auto simp: markError_def)
qed

lemma queueInv_step:
  assumes "queueInv s"
  shows "queueInv (step ev s)"
proof -
  obtain st pending where s: "s = (st, pending)" by (cases s)
  show ?thesis
  proof (cases ev)
    case (FileSelect sel)
    with assms s show ?thesis by (simp add: queueInv_select)
  next
    case (RemoveFile i)
    with assms s show ?thesis by (simp add: queueInv_remove)
  next
    case UploadAllStart
    have "queueInv (addToast m ty st, pending)" for m ty
      using assms s by (simp add: queueInv_iff addToast_def)
    with assms s UploadAllStart show ?thesis
      by (simp add: queueInv_start Let_def)
  next
    case (UploadSettled r)
    show ?thesis
    proof (cases pending)
      case Nil
      with assms s UploadSettled show ?thesis by simp
    next
      case (Cons u rest)
      with assms s UploadSettled queueInv_settled [of st u rest] show ?thesis
        by (cases r) simp_all
    qed
  next
    case TimeoutFired
    with assms s show ?thesis by (simp add: queueInv_timeout)
  qed
qed

lemma run_snoc: "run (evs @ [ev]) s = step ev (run evs s)"
  by (simp add: run_def)

lemma reachable_queueInv:
  assumes "reachable s"
  shows "queueInv s"
proof -
  from assms obtain aid evs where s: "s = run evs (initialPage aid, [])"
    unfolding reachable_def by blast
  have "queueInv (run evs (initialPage aid, []))"
  proof (induction evs rule: rev_induct)
    case Nil
    show ?case by (simp add: run_def queueInv_def initialPage_def)
  next
    case (snoc ev evs)
    then show ?case by (simp add: run_snoc queueInv_step)
  qed
  with s show ?thesis by simp
qed
lemma tracked_same:
  "distinct (map uf_id q) \<Longrightarrow> f \<in> set q \<Longrightarrow> uf_id f' = uf_id f \<Longrightarrow>
   status f' = status f \<or> statusMove (status f) (status f') \<Longrightarrow> tracked q f'"
  using find_by_id [of q f] by (simp add: tracked_def)

lemma tracked_new:
  "\<forall>g \<in> set q. uf_id g \<noteq> uf_id f' \<Longrightarrow> status f' = Queued \<Longrightarrow> tracked q f'"
  by (simp add: tracked_def find_fresh)

lemma step_tracked:
  assumes inv: "queueInv s" and f': "f' \<in> set (filesToUpload (fst (step ev s)))"
  shows "tracked (filesToUpload (fst s)) f'"
proof -
  obtain st pending where s: "s = (st, pending)" by (cases s)
  from inv s have "queueInv (st, pending)" by simp
  then have d: "distinct (map uf_id (filesToUpload st))"
    and lt: "\<forall>f \<in> set (filesToUpload st). uf_id f < nextUuid st"
    and up: "\<forall>u \<in> set pending. \<forall>f \<in> set (filesToUpload st). uf_id f = uf_id u \<longrightarrow> status f = Uploading"
    unfolding queueInv_iff by blast+
  note same = tracked_same [OF d]
  show ?thesis
  proof (cases ev)
    case (FileSelect sel)
    obtain newFiles where n:
      "filesToUpload (handleFileSelect sel st) = filesToUpload st @ newFiles"
      "\<forall>u \<in> set newFiles. nextUuid st \<le> uf_id u \<and> uf_id u < nextUuid (handleFileSelect sel st) \<and> status u = Queued"
      using handleFileSelect_queue [of sel st] by blast
    from f' s FileSelect n(1) consider "f' \<in> set (filesToUpload st)" | "f' \<in> set newFiles" by auto
    then show ?thesis
    proof cases
      case 1
      with same s show ?thesis by simp
    next
      case 2
      with n(2) lt have "\<forall>g \<in> set (filesToUpload st). uf_id g \<noteq> uf_id f'" "status f' = Queued"
        by fastforce+
      with s show ?thesis by (simp add: tracked_new)
    qed
  next
    case (RemoveFile i)
    with f' s have "f' \<in> set (filesToUpload st)"
      by (auto simp: removeFileFromQueue_def Let_def revokeObjectURL_def split: option.splits)
    with same s show ?thesis by simp
  next
    case UploadAllStart
    with f' s consider "f' \<in> set (filesToUpload st)"
      | g where "g \<in> set (filesToUpload st)" "status g = Queued" "f' = g\<lparr>status := Uploading\<rparr>"
      by (auto simp: Let_def addToast_def markUploading_def split: if_splits)
    then show ?thesis
    proof cases
      case 1
      with same s show ?thesis by simp
    next
      case 2
      with same [of g f'] s show ?thesis by (simp add: statusMove_def)
    qed
  next
    case (UploadSettled r)
    show ?thesis
    proof (cases pending)
      case Nil
      with f' s UploadSettled same show ?thesis by simp
    next
      case (Cons u rest)
      with f' s UploadSettled obtain g where g: "g \<in> set (filesToUpload st)"
        "f' = g \<or> (uf_id g = uf_id u \<and> (f' = g\<lparr>status := Success\<rparr> \<or> (\<exists>e. f' = g\<lparr>status := Error, uf_error := Some e\<rparr>)))"
        by (cases r) (auto simp: markSuccess_def markError_def split: if_splits)
      show ?thesis
      proof (cases "f' = g")
        case True
        with g same s show ?thesis by simp
      next
        case False
        with g have i: "uf_id g = uf_id u"
          and m: "f' = g\<lparr>status := Success\<rparr> \<or> (\<exists>e. f' = g\<lparr>status := Error, uf_error := Some e\<rparr>)"
          by blast+
        from up Cons g(1) i have "status g = Uploading" by simp
        with m same [of g f'] g(1) s show ?thesis by (auto simp: statusMove_def)
      qed
    qed
  next
    case TimeoutFired
    with f' s have "f' \<in> set (filesToUpload st)"
      by (auto simp: uploadAllTimeout_def)
    with same s show ?thesis by simp
  qed
qed

text \<open>
  C2.  In every state reachable from a freshly mounted editor by the events of the queue
  machine (file selection, removal, the start of \<^verbatim>\<open>handleUploadAll\<close>, the settling of one of
  its uploads, the timer), and for every event: each entry of the queue after the event
  has one of the four statuses; an entry whose id was not in the queue before has status
  \<^verbatim>\<open>queued\<close>; and an entry that was in the queue has the status it had, or its status changed
  from \<^verbatim>\<open>queued\<close> to \<^verbatim>\<open>uploading\<close>, from \<^verbatim>\<open>uploading\<close> to \<^verbatim>\<open>success\<close> or from \<^verbatim>\<open>uploading\<close> to \<^verbatim>\<open>error\<close>.
\<close>

theorem queue_status_transitions:
  assumes "reachable s"
  shows "\<forall>f' \<in> set (filesToUpload (fst (step ev s))).
           status f' \<in> {Queued, Uploading, Success, Error}
         \<and> (case find (\<lambda>f. uf_id f = uf_id f') (filesToUpload (fst s)) of
              None \<Rightarrow> status f' = Queued
            | Some f \<Rightarrow> status f' = status f \<or> statusMove (status f) (status f'))"
proof
  fix f' assume f': "f' \<in> set (filesToUpload (fst (step ev s)))"
  have "status f' \<in> {Queued, Uploading, Success, Error}" by (cases "status f'") simp_all
  moreover from step_tracked [OF reachable_queueInv [OF assms] f']
  have "case find (\<lambda>f. uf_id f = uf_id f') (filesToUpload (fst s)) of
              None \<Rightarrow> status f' = Queued
            | Some f \<Rightarrow> status f' = status f \<or> statusMove (status f) (status f')"
    by (simp add: tracked_def)
  ultimately show "status f' \<in> {Queued, Uploading, Success, Error}
         \<and> (case find (\<lambda>f. uf_id f = uf_id f') (filesToUpload (fst s)) of
              None \<Rightarrow> status f' = Queued
            | Some f \<Rightarrow> status f' = status f \<or> statusMove (status f) (status f'))"
    by blast
qed

theorem queue_status_transitions_witness:
  "map status (filesToUpload (fst (step UploadAllStart (run [FileSelect (Some [pngFile])] (initialPage (Some ''a1''), [])))))
     = [Uploading]
   \<and> map status (filesToUpload (fst (run [FileSelect (Some [pngFile])] (initialPage (Some ''a1''), []))))
     = [Queued]
   \<and> statusMove Queued Uploading"
proof -
  have r: "reachable (run [FileSelect (Some [pngFile])] (initialPage (Some ''a1''), []))"
    unfolding reachable_def by blast
  from queue_status_transitions [OF r, of UploadAllStart] show ?thesis
    by (simp add: run_def handleFileSelect_def selectFile_def initialPage_def pngFile_def truthy_def
          markUploading_def statusMove_def Let_def)
qed

text \<open>
  A run of \<^verbatim>\<open>handleUploadAll\<close> is a run of the machine: its start followed by the settling of
  each file to process, in order.
\<close>

lemma run_Cons: "run (ev # evs) s = run evs (step ev s)"
  by (simp add: run_def)

lemma run_settles:
  "run (map (\<lambda>u. UploadSettled (failure be u)) us) (st, us @ rest) = (st', pending') \<Longrightarrow>
     filesToUpload st' = map (\<lambda>f. if uf_id f \<in> uf_id ` set us then settled be f else f) (filesToUpload st)
   \<and> pending' = rest"
proof (induction us arbitrary: st)
  case Nil
  then show ?case by (simp add: run_def)
next
  case (Cons u us)
  show ?case
  proof (cases "failure be u")
    case None
    with Cons.prems have "run (map (\<lambda>u. UploadSettled (failure be u)) us) (markSuccess (uf_id u) st, us @ rest) = (st', pending')"
      by (simp add: run_Cons)
    from Cons.IH [OF this] None show ?thesis
      by (auto simp: markSuccess_def settled_def failure_def split: option.splits)
  next
    case (Some e)
    with Cons.prems have "run (map (\<lambda>u. UploadSettled (failure be u)) us) (markError (uf_id u) e st, us @ rest) = (st', pending')"
      by (simp add: run_Cons)
    from Cons.IH [OF this] Some show ?thesis
      by (auto simp: markError_def settled_def failure_def split: option.splits)
  qed
qed

lemma handleUploadAll_is_run:
  "filesToUpload (handleUploadAll be st)
     = filesToUpload (fst (run (UploadAllStart # map (\<lambda>u. UploadSettled (failure be u))
                                   (filter (\<lambda>f. status f = Queued) (filesToUpload st))) (st, [])))"
proof -
  let ?q = "filter (\<lambda>f. status f = Queued) (filesToUpload st)"
  let ?evs = "map (\<lambda>u. UploadSettled (failure be u)) ?q"
  show ?thesis
  proof (cases "truthy (albumId st) \<and> ?q \<noteq> []")
    case True
    obtain sc ec st2 where loop: "uploadLoop be (the (albumId st)) ?q (0, 0, markUploading st) = (sc, ec, st2)"
      by (cases "uploadLoop be (the (albumId st)) ?q (0, 0, markUploading st)")
    obtain st' pending' where r: "run ?evs (markUploading st, [] @ ?q @ []) = (st', pending')"
      by (cases "run ?evs (markUploading st, [] @ ?q @ [])")
    from r have r': "run ?evs (markUploading st, ?q @ []) = (st', pending')" by simp
    from uploadLoop_effect [OF loop] run_settles [OF r'] have "filesToUpload st2 = filesToUpload st'"
      by simp
    moreover from True loop have "filesToUpload (handleUploadAll be st) = filesToUpload st2"
      by (simp add: handleUploadAll_def Let_def effect_defs)
    moreover from True r have "run (UploadAllStart # ?evs) (st, []) = (st', pending')"
      by (simp add: run_Cons Let_def)
    ultimately show ?thesis by simp
  next
    case False
    have idle: "run (map (\<lambda>u. UploadSettled (failure be u)) us) (s0, []) = (s0, [])" for us s0
      by (induction us) (simp_all add: run_Cons, simp add: run_def)
    have nil: "run [] s0 = s0" for s0 :: "page \<times> UploadableFile list"
      by (simp add: run_def)
    from False show ?thesis
      by (auto simp: handleUploadAll_def run_Cons idle nil addToast_def)
  qed
qed

subsection \<open>Preview URLs\<close>

text \<open>
  C4 does not hold of the code.  After two selections of one picture each, the preview URL
  of the first entry has been revoked by the effect's cleanup although the entry is still
  in the queue with status \<^verbatim>\<open>queued\<close>; removing that entry then revokes its URL twice more
  (once in the updater, once in the cleanup) and revokes the URL of the entry that stays;
  tearing the page down instead revokes the first URL a second time.
\<close>

theorem preview_url_revoked_while_queued:
  "map previewUrl (filesToUpload twoSelections) = [0, 1]
   \<and> map status (filesToUpload twoSelections) = [Queued, Queued]
   \<and> revoked twoSelections = [0]
   \<and> map previewUrl (filesToUpload (removeFileFromQueue 0 twoSelections)) = [1]
   \<and> revoked (removeFileFromQueue 0 twoSelections) = [0, 0, 0, 1]
   \<and> revoked (unmount twoSelections) = [0, 0, 1]"
  by (simp add: twoSelections_def handleFileSelect_def selectFile_def removeFileFromQueue_def
        unmount_def initialPage_def pngFile_def revokeObjectURL_def Let_def)

end
